theory Spec2Isabelle
  imports Complex_Main
begin

section \<open>The batched line geometry of the three-renderer package\<close>

text \<open>
  A shallow embedding of \<^verbatim>\<open>src/packages/three-renderer/src/batch/AcTrBatchedLine.ts\<close>.
  JavaScript numbers are modelled exactly: handles, offsets and counts are \<^typ>\<open>int\<close>, the two
  capacities are \<^typ>\<open>rat\<close> (the growth factor 1.5 makes them fractional), vertex components are
  \<^typ>\<open>rat\<close>. Rounding of floating point numbers is not modelled. Every \<^verbatim>\<open>throw\<close> of the
  source, and every property access on \<^verbatim>\<open>undefined\<close>, is a value of the type \<open>error\<close>; a method
  that throws returns the error together with the state it leaves behind.
\<close>

subsection \<open>Bounds (THREE.Box3, THREE.Sphere)\<close>

type_synonym vec3 = "rat \<times> rat \<times> rat"

text \<open>
  \<open>EmptyBox\<close> is the box after \<^verbatim>\<open>makeEmpty()\<close>. \<open>NaNBox\<close> stands for a box that was expanded by
  a point read outside a typed array (the read gives \<^verbatim>\<open>undefined\<close>, the minimum and maximum
  become NaN). A sphere is kept as its centre and the square of its radius
  (\<^verbatim>\<open>radius = Math.sqrt(maxRadiusSq)\<close>); \<open>EmptySphere\<close> is \<^verbatim>\<open>new THREE.Sphere()\<close>.
\<close>

datatype box3 = EmptyBox | Box vec3 vec3 | NaNBox

datatype sphere = EmptySphere | Sphere vec3 rat | NaNSphere

fun expandByPoint :: "box3 \<Rightarrow> vec3 option \<Rightarrow> box3" where
  "expandByPoint _ None = NaNBox"
| "expandByPoint NaNBox _ = NaNBox"
| "expandByPoint EmptyBox (Some p) = Box p p"
| "expandByPoint (Box (x0, y0, z0) (x1, y1, z1)) (Some (x, y, z)) =
     Box (min x0 x, min y0 y, min z0 z) (max x1 x, max y1 y, max z1 z)"

fun getCenter :: "box3 \<Rightarrow> vec3 option" where
  "getCenter EmptyBox = Some (0, 0, 0)"
| "getCenter (Box (x0, y0, z0) (x1, y1, z1)) = Some ((x0 + x1) / 2, (y0 + y1) / 2, (z0 + z1) / 2)"
| "getCenter NaNBox = None"

fun distanceToSquared :: "vec3 \<Rightarrow> vec3 \<Rightarrow> rat" where
  "distanceToSquared (x0, y0, z0) (x1, y1, z1) =
     (x0 - x1) * (x0 - x1) + (y0 - y1) * (y0 - y1) + (z0 - z1) * (z0 - z1)"

fun maxRadiusSq :: "vec3 \<Rightarrow> vec3 option list \<Rightarrow> rat option" where
  "maxRadiusSq c [] = Some 0"
| "maxRadiusSq c (None # ps) = None"
| "maxRadiusSq c (Some p # ps) =
     (case maxRadiusSq c ps of None \<Rightarrow> None | Some r \<Rightarrow> Some (max (distanceToSquared c p) r))"

definition sphereOfPoints :: "box3 \<Rightarrow> vec3 option list \<Rightarrow> sphere" where
  "sphereOfPoints b ps =
     (case getCenter b of
        None \<Rightarrow> NaNSphere
      | Some c \<Rightarrow> (case maxRadiusSq c ps of None \<Rightarrow> NaNSphere | Some r \<Rightarrow> Sphere c r))"

subsection \<open>Typed arrays and buffer attributes\<close>

datatype error =
    IndexConsistency
  | MissingAttribute string
  | ItemSizeConsistency
  | ReservedExceedsMaximum
  | MaximumGeometryCount
  | ReservedNotLargeEnough
  | InvalidGeometryId int
  | TypeError
  | RangeError
  | ReferenceError string

text \<open>
  \<^verbatim>\<open>new TypedArray(n)\<close>: the length is \<open>n\<close> truncated towards zero, a negative length is a
  RangeError.
\<close>

definition newTypedArray :: "rat \<Rightarrow> error + nat" where
  "newTypedArray n = (if n \<le> -1 then Inl RangeError else Inr (nat \<lfloor>n\<rfloor>))"

text \<open>\<^verbatim>\<open>array[i] = v\<close> on a typed array: a write outside the array is dropped.\<close>

definition writeAt :: "'a list \<Rightarrow> int \<Rightarrow> 'a \<Rightarrow> 'a list" where
  "writeAt xs i v = (if 0 \<le> i \<and> i < int (length xs) then xs[nat i := v] else xs)"

text \<open>\<^verbatim>\<open>array[i]\<close>: \<open>None\<close> is \<^verbatim>\<open>undefined\<close>.\<close>

definition readAt :: "'a list \<Rightarrow> int \<Rightarrow> 'a option" where
  "readAt xs i = (if 0 \<le> i \<and> i < int (length xs) then Some (xs ! nat i) else None)"

text \<open>The loop \<^verbatim>\<open>for (j = 0; j < vs.length; j++) xs[off + j] = vs[j]\<close>.\<close>

fun paste :: "'a list \<Rightarrow> int \<Rightarrow> 'a list \<Rightarrow> 'a list" where
  "paste xs off [] = xs"
| "paste xs off (v # vs) = paste (writeAt xs off v) (off + 1) vs"

text \<open>
  \<^verbatim>\<open>TypedArray.prototype.copyWithin(target, start, end)\<close>: negative arguments count from the
  end, the copied block is read before it is written.
\<close>

definition copyWithin :: "'a list \<Rightarrow> int \<Rightarrow> int \<Rightarrow> int \<Rightarrow> 'a list" where
  "copyWithin xs target start' end' =
     (let len = int (length xs);
          rel = (\<lambda>k. if k < 0 then max (len + k) 0 else min k len);
          to = rel target; from = rel start'; final = rel end';
          cnt = min (final - from) (len - to)
      in if 0 < cnt then paste xs to (take (nat cnt) (drop (nat from) xs)) else xs)"

record attribute =
  itemSize :: nat
  normalized :: bool
  array :: "rat list"

text \<open>
  \<^verbatim>\<open>BufferAttribute.count\<close> is \<^verbatim>\<open>array.length / itemSize\<close>; the arrays of a payload hold whole
  vertices, so the division is exact.
\<close>

definition attr_count :: "attribute \<Rightarrow> int" where
  "attr_count a = int (length (array a) div itemSize a)"

text \<open>\<^verbatim>\<open>vector.fromBufferAttribute(attribute, i)\<close> reads \<^verbatim>\<open>getX(i)\<close>, \<^verbatim>\<open>getY(i)\<close>, \<^verbatim>\<open>getZ(i)\<close>.\<close>

definition fromBufferAttribute :: "attribute \<Rightarrow> int \<Rightarrow> vec3 option" where
  "fromBufferAttribute a i =
     (case (readAt (array a) (i * int (itemSize a)),
            readAt (array a) (i * int (itemSize a) + 1),
            readAt (array a) (i * int (itemSize a) + 2)) of
        (Some x, Some y, Some z) \<Rightarrow> Some (x, y, z)
      | _ \<Rightarrow> None)"

datatype indexKind = U16 | U32

definition wrapIndex :: "indexKind \<Rightarrow> int \<Rightarrow> int" where
  "wrapIndex k v = (case k of U16 \<Rightarrow> v mod 65536 | U32 \<Rightarrow> v mod 4294967296)"

text \<open>
  A \<^verbatim>\<open>THREE.BufferGeometry\<close>: the payload handed to \<^verbatim>\<open>addGeometry\<close> and the shared geometry
  of a batch are both of this class. The attributes are an object whose keys are iterated in
  insertion order: an association list with distinct keys. The draw range is
  \<^verbatim>\<open>{start, count}\<close>, \<open>None\<close> being the initial \<^verbatim>\<open>Infinity\<close>.
\<close>

record bufferGeometry =
  attributes :: "(string \<times> attribute) list"
  index :: "(indexKind \<times> int list) option"
  geomBoundingBox :: "box3 option"
  geomBoundingSphere :: "sphere option"
  drawRange :: "int \<times> int option"

definition emptyGeometry :: bufferGeometry where
  "emptyGeometry = \<lparr>attributes = [], index = None, geomBoundingBox = None,
     geomBoundingSphere = None, drawRange = (0, None)\<rparr>"

definition getAttribute :: "bufferGeometry \<Rightarrow> string \<Rightarrow> attribute option" where
  "getAttribute g n = map_of (attributes g) n"

text \<open>\<^verbatim>\<open>setAttribute\<close>: an existing key keeps its place, a new key goes last.\<close>

fun setAttribute :: "string \<Rightarrow> attribute \<Rightarrow> (string \<times> attribute) list \<Rightarrow> (string \<times> attribute) list" where
  "setAttribute n a [] = [(n, a)]"
| "setAttribute n a ((m, b) # rest) =
     (if m = n then (m, a) # rest else (m, b) # setAttribute n a rest)"

definition indexCountOf :: "bufferGeometry \<Rightarrow> int" where
  "indexCountOf g = (case index g of None \<Rightarrow> 0 | Some (k, ix) \<Rightarrow> int (length ix))"

text \<open>
  \<^verbatim>\<open>geometry.computeBoundingBox()\<close> and \<^verbatim>\<open>geometry.computeBoundingSphere()\<close> of three.js: the
  box of all vertices of the position attribute; the sphere around the centre of that box.
\<close>

definition positionsOf :: "bufferGeometry \<Rightarrow> vec3 option list" where
  "positionsOf g =
     (case getAttribute g ''position'' of
        None \<Rightarrow> []
      | Some p \<Rightarrow> map (\<lambda>i. fromBufferAttribute p (int i)) [0 ..< nat (attr_count p)])"

definition computeBoundingBox :: "bufferGeometry \<Rightarrow> box3" where
  "computeBoundingBox g = foldl expandByPoint EmptyBox (positionsOf g)"

definition computeBoundingSphere :: "bufferGeometry \<Rightarrow> sphere" where
  "computeBoundingSphere g =
     (case getAttribute g ''position'' of
        None \<Rightarrow> EmptySphere
      | Some p \<Rightarrow> sphereOfPoints (computeBoundingBox g) (positionsOf g))"

subsection \<open>The region table and the batch\<close>

text \<open>
  One \<^verbatim>\<open>AcTrBatchedGeometryInfo\<close>, with the fields \<^verbatim>\<open>addGeometry\<close> and \<^verbatim>\<open>setGeometryInfo\<close>
  write. (The user data \<^verbatim>\<open>position\<close>, read only by \<^verbatim>\<open>resetGeometry\<close>, is left out.)
\<close>

record region =
  vertexStart :: int
  vertexCount :: int
  reservedVertexCount :: int
  indexStart :: int
  indexCount :: int
  reservedIndexCount :: int
  start :: int
  count :: int
  boundingBox :: "box3 option"
  boundingSphere :: "sphere option"
  active :: bool
  visible :: bool
  objectId :: "string option"
  bboxIntersectionCheck :: bool

record batch =
  maxVertexCount :: rat
  maxIndexCount :: rat
  geometryInfo :: "region list"
  availableGeometryIds :: "int list"
  nextIndexStart :: int
  nextVertexStart :: int
  geometryCount :: int
  geometryInitialized :: bool
  geometry :: bufferGeometry

text \<open>The constructor; \<^verbatim>\<open>maxIndexCount\<close> defaults to \<^verbatim>\<open>maxVertexCount * 2\<close>.\<close>

definition newBatch :: "rat \<Rightarrow> rat \<Rightarrow> batch" where
  "newBatch mv mi = \<lparr>maxVertexCount = mv, maxIndexCount = mi, geometryInfo = [],
     availableGeometryIds = [], nextIndexStart = 0, nextVertexStart = 0, geometryCount = 0,
     geometryInitialized = False, geometry = emptyGeometry\<rparr>"

definition unusedVertexCount :: "batch \<Rightarrow> rat" where
  "unusedVertexCount s = maxVertexCount s - of_int (nextVertexStart s)"

definition unusedIndexCount :: "batch \<Rightarrow> rat" where
  "unusedIndexCount s = maxIndexCount s - of_int (nextIndexStart s)"

text \<open>\<^verbatim>\<open>this._geometryInfo[geometryId]\<close>: \<open>None\<close> is \<^verbatim>\<open>undefined\<close>.\<close>

definition infoAt :: "batch \<Rightarrow> int \<Rightarrow> region option" where
  "infoAt s geometryId = readAt (geometryInfo s) geometryId"

definition setInfoAt :: "batch \<Rightarrow> int \<Rightarrow> region \<Rightarrow> batch" where
  "setInfoAt s geometryId info = s\<lparr>geometryInfo := writeAt (geometryInfo s) geometryId info\<rparr>"

subsection \<open>Helpers imported from AcTrBatchedGeometryInfo\<close>

text \<open>
  \<^verbatim>\<open>Array.prototype.sort(compare)\<close> is a stable sort: \<open>x\<close> stays before \<open>y\<close> unless
  \<^verbatim>\<open>compare(x, y) > 0\<close>.
\<close>

fun insertBy :: "('a \<Rightarrow> 'a \<Rightarrow> int) \<Rightarrow> 'a \<Rightarrow> 'a list \<Rightarrow> 'a list" where
  "insertBy cmp x [] = [x]"
| "insertBy cmp x (y # ys) = (if cmp x y \<le> 0 then x # y # ys else y # insertBy cmp x ys)"

definition sortBy :: "('a \<Rightarrow> 'a \<Rightarrow> int) \<Rightarrow> 'a list \<Rightarrow> 'a list" where
  "sortBy cmp xs = foldr (insertBy cmp) xs []"

text \<open>
  Modelled from the spec: \<^verbatim>\<open>ascIdSort\<close>, the comparator of
  \<^verbatim>\<open>this._availableGeometryIds.sort(ascIdSort)\<close>; its file is not among the sources. The spec
  has the lowest available id selected, ties broken by numeric order: the comparator is
  the ascending one.
\<close>

definition ascIdSort :: "int \<Rightarrow> int \<Rightarrow> int" where
  "ascIdSort a b = a - b"

text \<open>
  Modelled from the spec: \<^verbatim>\<open>copyAttributeData(src, dst, vertexStart)\<close>, whose file is not among
  the sources. The spec has the vertex data copied into the newly reserved range: component
  \<open>j\<close> of the source goes to component \<open>vertexStart * itemSize + j\<close> of the target.
\<close>

definition copyAttributeData :: "attribute \<Rightarrow> attribute \<Rightarrow> int \<Rightarrow> attribute" where
  "copyAttributeData src dst vertexStart' =
     dst\<lparr>array := paste (array dst) (vertexStart' * int (itemSize dst)) (array src)\<rparr>"

text \<open>
  Modelled from the spec: \<^verbatim>\<open>copyArrayContents(src, target)\<close>, whose file is not among the
  sources. The spec has growth reallocate and copy the entire previous contents: the
  target takes the source's elements, as many as fit.
\<close>

definition copyArrayContents :: "'a list \<Rightarrow> 'a list \<Rightarrow> 'a list" where
  "copyArrayContents src target = paste target 0 (take (length target) src)"

text \<open>The same for the index arrays, whose element type may differ: a value is stored modulo the word size of the target.\<close>

definition copyIndexContents :: "(indexKind \<times> int list) \<Rightarrow> (indexKind \<times> int list) \<Rightarrow> (indexKind \<times> int list)" where
  "copyIndexContents src target =
     (fst target, copyArrayContents (map (wrapIndex (fst target)) (snd src)) (snd target))"

subsection \<open>Initialisation, validation and growth\<close>

fun initAttributes :: "rat \<Rightarrow> (string \<times> attribute) list \<Rightarrow> (string \<times> attribute) list \<Rightarrow>
    error option \<times> (string \<times> attribute) list" where
  "initAttributes mv [] acc = (None, acc)"
| "initAttributes mv ((n, a) # rest) acc =
     (case newTypedArray (mv * of_nat (itemSize a)) of
        Inl e \<Rightarrow> (Some e, acc)
      | Inr len \<Rightarrow>
          initAttributes mv rest
            (setAttribute n \<lparr>itemSize = itemSize a, normalized = normalized a,
               array = replicate len 0\<rparr> acc))"

text \<open>\<^verbatim>\<open>_initializeGeometry(reference)\<close>\<close>

definition initializeGeometry :: "batch \<Rightarrow> bufferGeometry \<Rightarrow> error option \<times> batch" where
  "initializeGeometry s reference =
     (if geometryInitialized s then (None, s)
      else
        (case initAttributes (maxVertexCount s) (attributes reference) (attributes (geometry s)) of
           (Some e, attrs) \<Rightarrow> (Some e, s\<lparr>geometry := (geometry s)\<lparr>attributes := attrs\<rparr>\<rparr>)
         | (None, attrs) \<Rightarrow>
             (case index reference of
                None \<Rightarrow>
                  (None, s\<lparr>geometry := (geometry s)\<lparr>attributes := attrs\<rparr>,
                            geometryInitialized := True\<rparr>)
              | Some _ \<Rightarrow>
                  (case newTypedArray (maxIndexCount s) of
                     Inl e \<Rightarrow> (Some e, s\<lparr>geometry := (geometry s)\<lparr>attributes := attrs\<rparr>\<rparr>)
                   | Inr len \<Rightarrow>
                       (None, s\<lparr>geometry := (geometry s)\<lparr>attributes := attrs,
                                   index := Some (if 65535 < maxVertexCount s then U32 else U16,
                                                  replicate len 0)\<rparr>,
                                 geometryInitialized := True\<rparr>)))))"

fun validateAttributes :: "(string \<times> attribute) list \<Rightarrow> bufferGeometry \<Rightarrow> error option" where
  "validateAttributes [] g = None"
| "validateAttributes ((n, dstAttribute) # rest) g =
     (case getAttribute g n of
        None \<Rightarrow> Some (MissingAttribute n)
      | Some srcAttribute \<Rightarrow>
          (if itemSize srcAttribute \<noteq> itemSize dstAttribute \<or>
              normalized srcAttribute \<noteq> normalized dstAttribute
           then Some ItemSizeConsistency
           else validateAttributes rest g))"

text \<open>\<^verbatim>\<open>_validateGeometry(geometry)\<close>: \<open>None\<close> when nothing is thrown.\<close>

definition validateGeometry :: "batch \<Rightarrow> bufferGeometry \<Rightarrow> error option" where
  "validateGeometry s g =
     (if (index g \<noteq> None) \<noteq> (index (geometry s) \<noteq> None) then Some IndexConsistency
      else validateAttributes (attributes (geometry s)) g)"

text \<open>The loop of \<^verbatim>\<open>setGeometrySize\<close> over the attributes of the old geometry.\<close>

fun copyOldAttributes :: "(string \<times> attribute) list \<Rightarrow> (string \<times> attribute) list \<Rightarrow>
    (string \<times> attribute) list" where
  "copyOldAttributes [] new = new"
| "copyOldAttributes ((n, old) # rest) new =
     copyOldAttributes rest
       (case map_of new n of
          None \<Rightarrow> new
        | Some a \<Rightarrow> setAttribute n (a\<lparr>array := copyArrayContents (array old) (array a)\<rparr>) new)"

text \<open>\<^verbatim>\<open>setGeometrySize(maxVertexCount, maxIndexCount)\<close>\<close>

definition setGeometrySize :: "batch \<Rightarrow> rat \<Rightarrow> rat \<Rightarrow> error option \<times> batch" where
  "setGeometrySize s mv mi =
     (let oldGeometry = geometry s;
          s1 = s\<lparr>maxVertexCount := mv, maxIndexCount := mi\<rparr>
      in if geometryInitialized s then
           (case initializeGeometry (s1\<lparr>geometryInitialized := False, geometry := emptyGeometry\<rparr>)
                   oldGeometry of
              (Some e, s2) \<Rightarrow> (Some e, s2)
            | (None, s2) \<Rightarrow>
                (None, s2\<lparr>geometry := (geometry s2)\<lparr>
                   index := (case (index oldGeometry, index (geometry s2)) of
                               (Some old, Some new) \<Rightarrow> Some (copyIndexContents old new)
                             | _ \<Rightarrow> index (geometry s2)),
                   attributes := copyOldAttributes (attributes oldGeometry)
                                   (attributes (geometry s2))\<rparr>\<rparr>))
         else (None, s1))"

text \<open>
  \<^verbatim>\<open>_resizeSpaceIfNeeded(geometry)\<close>, with its two variables \<^verbatim>\<open>newMaxIndexCount\<close> and
  \<^verbatim>\<open>newMaxVertexCount\<close>.
\<close>

definition newMaxIndexCount :: "batch \<Rightarrow> bufferGeometry \<Rightarrow> rat" where
  "newMaxIndexCount s g =
     (case index g of
        None \<Rightarrow> maxIndexCount s
      | Some _ \<Rightarrow>
          (if unusedIndexCount s < of_int (indexCountOf g)
           then (maxIndexCount s + of_int (indexCountOf g)) * (3 / 2)
           else maxIndexCount s))"

definition newMaxVertexCount :: "batch \<Rightarrow> bufferGeometry \<Rightarrow> rat" where
  "newMaxVertexCount s g =
     (case getAttribute g ''position'' of
        None \<Rightarrow> maxVertexCount s
      | Some positionAttribute \<Rightarrow>
          (if unusedVertexCount s < of_int (attr_count positionAttribute)
           then (maxVertexCount s + of_int (attr_count positionAttribute)) * (3 / 2)
           else maxVertexCount s))"

definition resizeSpaceIfNeeded :: "batch \<Rightarrow> bufferGeometry \<Rightarrow> error option \<times> batch" where
  "resizeSpaceIfNeeded s g =
     (if maxIndexCount s < newMaxIndexCount s g \<or> maxVertexCount s < newMaxVertexCount s g
      then setGeometrySize s (newMaxVertexCount s g) (newMaxIndexCount s g)
      else (None, s))"

subsection \<open>setGeometryAt\<close>

text \<open>
  The loop over the attributes of the batch: the payload's data is copied to
  \<open>vertexStart\<close>, the rest of the reserved range is filled with zeroes.
  (\<^verbatim>\<open>_validateGeometry\<close> has just found every attribute of the batch in the payload, so the
  branch of a missing attribute is not reached.)
\<close>

definition zeroFill :: "attribute \<Rightarrow> nat \<Rightarrow> int \<Rightarrow> int \<Rightarrow> int \<Rightarrow> attribute" where
  "zeroFill dst srcItemSize vertexStart' from' to' =
     dst\<lparr>array := fold (\<lambda>i arr. paste arr ((vertexStart' + i) * int (itemSize dst))
                                  (replicate srcItemSize 0))
                      [from' .. to' - 1] (array dst)\<rparr>"

definition writeAttribute :: "bufferGeometry \<Rightarrow> int \<Rightarrow> int \<Rightarrow> string \<times> attribute \<Rightarrow> string \<times> attribute" where
  "writeAttribute g vertexStart' reservedVertexCount' na =
     (case getAttribute g (fst na) of
        None \<Rightarrow> na
      | Some srcAttribute \<Rightarrow>
          (fst na, zeroFill (copyAttributeData srcAttribute (snd na) vertexStart')
                     (itemSize srcAttribute) vertexStart' (attr_count srcAttribute)
                     reservedVertexCount'))"

text \<open>The two loops over the index: the payload's indices offset by \<open>vertexStart\<close>, then padding.\<close>

definition writeIndex :: "(indexKind \<times> int list) \<Rightarrow> int list \<Rightarrow> int \<Rightarrow> int \<Rightarrow> int \<Rightarrow>
    (indexKind \<times> int list)" where
  "writeIndex dstIndex srcIndex indexStart' vertexStart' reservedIndexCount' =
     (fst dstIndex,
      paste (paste (snd dstIndex) indexStart'
               (map (\<lambda>v. wrapIndex (fst dstIndex) (vertexStart' + v)) srcIndex))
        (indexStart' + int (length srcIndex))
        (replicate (nat (reservedIndexCount' - int (length srcIndex)))
           (wrapIndex (fst dstIndex) vertexStart')))"

text \<open>The body of \<^verbatim>\<open>setGeometryAt\<close> after its checks.\<close>

definition storeGeometry :: "batch \<Rightarrow> int \<Rightarrow> region \<Rightarrow> bufferGeometry \<Rightarrow> attribute \<Rightarrow> batch" where
  "storeGeometry s geometryId info g positionAttribute =
     (let batchGeometry = geometry s;
          info1 = info\<lparr>vertexCount := attr_count positionAttribute\<rparr>;
          attrs = map (writeAttribute g (vertexStart info) (reservedVertexCount info))
                    (attributes batchGeometry);
          (ix, info2) =
            (case (index batchGeometry, index g) of
               (Some dstIndex, Some srcIndex) \<Rightarrow>
                 (Some (writeIndex dstIndex (snd srcIndex) (indexStart info) (vertexStart info)
                          (reservedIndexCount info)),
                  info1\<lparr>indexCount := int (length (snd srcIndex))\<rparr>)
             | _ \<Rightarrow> (index batchGeometry, info1));
          hasIndex = (index batchGeometry \<noteq> None);
          info3 = info2\<lparr>start := (if hasIndex then indexStart info2 else vertexStart info2),
                        count := (if hasIndex then indexCount info2 else vertexCount info2),
                        boundingBox := geomBoundingBox g,
                        boundingSphere := geomBoundingSphere g\<rparr>
      in setInfoAt (s\<lparr>geometry := batchGeometry\<lparr>attributes := attrs, index := ix\<rparr>\<rparr>)
           geometryId info3)"

text \<open>\<^verbatim>\<open>setGeometryAt(geometryId, geometry)\<close>\<close>

definition setGeometryAt :: "batch \<Rightarrow> int \<Rightarrow> bufferGeometry \<Rightarrow> (error + int) \<times> batch" where
  "setGeometryAt s geometryId g =
     (if geometryCount s \<le> geometryId then (Inl MaximumGeometryCount, s)
      else
        (case validateGeometry s g of
           Some e \<Rightarrow> (Inl e, s)
         | None \<Rightarrow>
             (case infoAt s geometryId of
                None \<Rightarrow> (Inl TypeError, s)
              | Some info \<Rightarrow>
                  (if index (geometry s) \<noteq> None \<and> reservedIndexCount info < indexCountOf g
                   then (Inl ReservedNotLargeEnough, s)
                   else
                     (case getAttribute g ''position'' of
                        None \<Rightarrow> (Inl TypeError, s)
                      | Some positionAttribute \<Rightarrow>
                          (if reservedVertexCount info < attr_count positionAttribute
                           then (Inl ReservedNotLargeEnough, s)
                           else (Inr geometryId,
                                 storeGeometry s geometryId info g positionAttribute)))))))"

subsection \<open>addGeometry and deleteGeometry\<close>

text \<open>
  The bounds of the payload are computed when they are missing
  (\<^verbatim>\<open>geometry.computeBoundingBox()\<close>, \<^verbatim>\<open>geometry.computeBoundingSphere()\<close>).
\<close>

definition ensureBounds :: "bufferGeometry \<Rightarrow> bufferGeometry" where
  "ensureBounds g =
     (let g1 = (if geomBoundingBox g = None
                then g\<lparr>geomBoundingBox := Some (computeBoundingBox g)\<rparr> else g)
      in if geomBoundingSphere g1 = None
         then g1\<lparr>geomBoundingSphere := Some (computeBoundingSphere g1)\<rparr> else g1)"

text \<open>
  The new \<^verbatim>\<open>geometryInfo\<close> of \<^verbatim>\<open>addGeometry\<close>, up to the check of the reserved space against
  the capacities.
\<close>

definition newGeometryInfo :: "batch \<Rightarrow> bufferGeometry \<Rightarrow> int \<Rightarrow> int \<Rightarrow> error + region" where
  "newGeometryInfo s g reservedVertexCount' reservedIndexCount' =
     (let info0 = \<lparr>vertexStart = nextVertexStart s, vertexCount = -1, reservedVertexCount = -1,
                   indexStart = -1, indexCount = -1, reservedIndexCount = -1,
                   start = -1, count = -1,
                   boundingBox = geomBoundingBox g, boundingSphere = geomBoundingSphere g,
                   active = True, visible = True,
                   objectId = None, bboxIntersectionCheck = False\<rparr>
      in case (if reservedVertexCount' = -1
               then map_option attr_count (getAttribute g ''position'')
               else Some reservedVertexCount') of
           None \<Rightarrow> Inl TypeError
         | Some rv \<Rightarrow>
             (let info1 = info0\<lparr>reservedVertexCount := rv\<rparr>;
                  info2 = (case index g of
                             None \<Rightarrow> info1
                           | Some _ \<Rightarrow>
                               info1\<lparr>indexStart := nextIndexStart s,
                                     reservedIndexCount :=
                                       (if reservedIndexCount' = -1 then indexCountOf g
                                        else reservedIndexCount')\<rparr>)
              in if (indexStart info2 \<noteq> -1 \<and>
                       maxIndexCount s < of_int (indexStart info2 + reservedIndexCount info2)) \<or>
                    maxVertexCount s < of_int (vertexStart info2 + reservedVertexCount info2)
                 then Inl ReservedExceedsMaximum
                 else Inr info2))"

text \<open>
  The choice of the id: the lowest id of the free list, or a new slot. (An id of the free
  list was put there by \<^verbatim>\<open>deleteGeometry\<close>, which takes it from the table.)
\<close>

definition allocateGeometryId :: "batch \<Rightarrow> region \<Rightarrow> int \<times> batch" where
  "allocateGeometryId s info =
     (case sortBy ascIdSort (availableGeometryIds s) of
        [] \<Rightarrow> (geometryCount s,
               s\<lparr>geometryCount := geometryCount s + 1, geometryInfo := geometryInfo s @ [info]\<rparr>)
      | geometryId # rest \<Rightarrow>
          (geometryId, setInfoAt (s\<lparr>availableGeometryIds := rest\<rparr>) geometryId info))"

text \<open>\<^verbatim>\<open>addGeometry(geometry, reservedVertexCount = -1, reservedIndexCount = -1)\<close>\<close>

definition addGeometry :: "batch \<Rightarrow> bufferGeometry \<Rightarrow> int \<Rightarrow> int \<Rightarrow> (error + int) \<times> batch" where
  "addGeometry s g0 reservedVertexCount' reservedIndexCount' =
     (case initializeGeometry s g0 of
        (Some e, s1) \<Rightarrow> (Inl e, s1)
      | (None, s1) \<Rightarrow>
          (case validateGeometry s1 g0 of
             Some e \<Rightarrow> (Inl e, s1)
           | None \<Rightarrow>
               (let g = ensureBounds g0 in
                case resizeSpaceIfNeeded s1 g of
                  (Some e, s2) \<Rightarrow> (Inl e, s2)
                | (None, s2) \<Rightarrow>
                    (case newGeometryInfo s2 g reservedVertexCount' reservedIndexCount' of
                       Inl e \<Rightarrow> (Inl e, s2)
                     | Inr info \<Rightarrow>
                         (case allocateGeometryId s2 info of
                            (geometryId, s3) \<Rightarrow>
                              (case setGeometryAt s3 geometryId g of
                                 (Inl e, s4) \<Rightarrow> (Inl e, s4)
                               | (Inr _, s4) \<Rightarrow>
                                   (Inr geometryId,
                                    s4\<lparr>nextIndexStart := indexStart info + reservedIndexCount info,
                                       nextVertexStart :=
                                         vertexStart info + reservedVertexCount info\<rparr>)))))))"

text \<open>\<^verbatim>\<open>deleteGeometry(geometryId)\<close>; \<open>None\<close> when it returns.\<close>

definition deleteGeometry :: "batch \<Rightarrow> int \<Rightarrow> error option \<times> batch" where
  "deleteGeometry s geometryId =
     (if int (length (geometryInfo s)) \<le> geometryId then (None, s)
      else
        (case infoAt s geometryId of
           None \<Rightarrow> (Some TypeError, s)
         | Some info \<Rightarrow>
             (if \<not> active info then (None, s)
              else (None, (setInfoAt s geometryId (info\<lparr>active := False, visible := False\<rparr>))
                            \<lparr>availableGeometryIds := availableGeometryIds s @ [geometryId]\<rparr>))))"

subsection \<open>optimize\<close>

text \<open>The \<^verbatim>\<open>copyWithin\<close> of one attribute when a region's vertices move.\<close>

definition moveVertices :: "int \<Rightarrow> int \<Rightarrow> int \<Rightarrow> string \<times> attribute \<Rightarrow> string \<times> attribute" where
  "moveVertices nextVertexStart' vertexStart' vertexCount' na =
     (fst na, (snd na)\<lparr>array :=
        copyWithin (array (snd na))
          (nextVertexStart' * int (itemSize (snd na)))
          (vertexStart' * int (itemSize (snd na)))
          ((vertexStart' + vertexCount') * int (itemSize (snd na)))\<rparr>)"

text \<open>
  The loop \<^verbatim>\<open>for (i = indexStart; i < indexStart + indexCount; i++) indexArray[i] += delta\<close>.
\<close>

definition remapIndices :: "indexKind \<Rightarrow> int list \<Rightarrow> int \<Rightarrow> int \<Rightarrow> int \<Rightarrow> int list" where
  "remapIndices k arr indexStart' indexCount' delta =
     fold (\<lambda>i a. case readAt a i of None \<Rightarrow> a | Some v \<Rightarrow> writeAt a i (wrapIndex k (v + delta)))
       [indexStart' .. indexStart' + indexCount' - 1] arr"

text \<open>
  One turn of the packing loop, for the region \<open>info\<close> of slot \<open>i\<close>. The source assigns
  \<^verbatim>\<open>info.vertexStart = nextVertexStart\<close> while moving the vertices, and computes
  \<^verbatim>\<open>delta = nextVertexStart - info.vertexStart\<close> afterwards, from the assigned value.
\<close>

definition optimizeRegion :: "batch \<times> int \<times> int \<Rightarrow> region \<times> nat \<Rightarrow> batch \<times> int \<times> int" where
  "optimizeRegion acc e =
     (case acc of (s, nextVertexStart', nextIndexStart') \<Rightarrow>
      case e of (info, i) \<Rightarrow>
       (let g = geometry s;
            hasIndex = (index g \<noteq> None);
            vertexCount' = vertexCount info;
            indexCount' = (if hasIndex then indexCount info else 0);
            (attrs, info1) =
              (if vertexStart info \<noteq> nextVertexStart'
               then (map (moveVertices nextVertexStart' (vertexStart info) vertexCount')
                       (attributes g),
                     info\<lparr>vertexStart := nextVertexStart'\<rparr>)
               else (attributes g, info));
            (ix, info2) =
              (case index g of
                 None \<Rightarrow> (None, info1)
               | Some (k, indexArray) \<Rightarrow>
                   (if indexStart info1 \<noteq> nextIndexStart'
                    then (let delta = nextVertexStart' - vertexStart info1;
                              remapped = remapIndices k indexArray (indexStart info1)
                                           indexCount' delta
                          in (Some (k, copyWithin remapped nextIndexStart' (indexStart info1)
                                         (indexStart info1 + indexCount')),
                              info1\<lparr>indexStart := nextIndexStart'\<rparr>))
                    else (Some (k, indexArray), info1)));
            info3 = info2\<lparr>start := (if hasIndex then indexStart info2 else vertexStart info2),
                          count := (if hasIndex then indexCount' else vertexCount')\<rparr>
        in (setInfoAt (s\<lparr>geometry := g\<lparr>attributes := attrs, index := ix\<rparr>\<rparr>) (int i) info3,
            nextVertexStart' + vertexCount', nextIndexStart' + indexCount')))"

text \<open>The active regions with their slots, sorted by their current \<open>vertexStart\<close>.\<close>

definition activeInfos :: "batch \<Rightarrow> (region \<times> nat) list" where
  "activeInfos s =
     sortBy (\<lambda>a b. vertexStart (fst a) - vertexStart (fst b))
       (filter (\<lambda>e. active (fst e)) (zip (geometryInfo s) [0 ..< length (geometryInfo s)]))"

text \<open>\<^verbatim>\<open>optimize()\<close>\<close>

definition optimize :: "batch \<Rightarrow> batch" where
  "optimize s =
     (case foldl optimizeRegion (s, 0, 0) (activeInfos s) of
        (s1, nextVertexStart', nextIndexStart') \<Rightarrow>
          (let g = geometry s1;
               ix = (case index g of
                       None \<Rightarrow> None
                     | Some (k, indexArray) \<Rightarrow>
                         Some (k, paste indexArray nextIndexStart'
                                    (replicate (nat (int (length indexArray) - nextIndexStart')) 0)))
           in s1\<lparr>geometry := g\<lparr>index := ix,
                    drawRange := (0, Some (if index g \<noteq> None then nextIndexStart'
                                           else nextVertexStart'))\<rparr>,
                 nextVertexStart := nextVertexStart',
                 nextIndexStart := nextIndexStart'\<rparr>))"

subsection \<open>Accessors\<close>

text \<open>\<^verbatim>\<open>validateGeometryId(geometryId)\<close>: \<open>None\<close> when nothing is thrown.\<close>

definition validateGeometryId :: "batch \<Rightarrow> int \<Rightarrow> error option" where
  "validateGeometryId s geometryId =
     (if geometryId < 0 \<or> int (length (geometryInfo s)) \<le> geometryId \<or>
         \<not> active (geometryInfo s ! nat geometryId)
      then Some (InvalidGeometryId geometryId) else None)"

definition getVisibleAt :: "batch \<Rightarrow> int \<Rightarrow> error + bool" where
  "getVisibleAt s geometryId =
     (case validateGeometryId s geometryId of
        Some e \<Rightarrow> Inl e
      | None \<Rightarrow> Inr (visible (geometryInfo s ! nat geometryId)))"

definition setVisibleAt :: "batch \<Rightarrow> int \<Rightarrow> bool \<Rightarrow> error option \<times> batch" where
  "setVisibleAt s geometryId v =
     (case validateGeometryId s geometryId of
        Some e \<Rightarrow> (Some e, s)
      | None \<Rightarrow>
          (if visible (geometryInfo s ! nat geometryId) = v then (None, s)
           else (None, setInfoAt s geometryId ((geometryInfo s ! nat geometryId)\<lparr>visible := v\<rparr>))))"

definition getGeometryAt :: "batch \<Rightarrow> int \<Rightarrow> error + region" where
  "getGeometryAt s geometryId =
     (case validateGeometryId s geometryId of
        Some e \<Rightarrow> Inl e
      | None \<Rightarrow> Inr (geometryInfo s ! nat geometryId))"

text \<open>
  The vertices a loop \<^verbatim>\<open>for (i = start; i < start + count; i++)\<close> over the shared buffers
  reads: \<^verbatim>\<open>iv = index ? index.getX(i) : i\<close>, then \<^verbatim>\<open>fromBufferAttribute(position, iv)\<close>. A
  vertex read outside an array is \<open>None\<close>; without a position attribute the first read
  throws.
\<close>

definition rangePoints :: "bufferGeometry \<Rightarrow> int \<Rightarrow> int \<Rightarrow> error + vec3 option list" where
  "rangePoints g start' count' =
     (let ivs = map (\<lambda>i. case index g of None \<Rightarrow> Some i | Some (k, arr) \<Rightarrow> readAt arr i)
                  [start' .. start' + count' - 1]
      in case getAttribute g ''position'' of
           None \<Rightarrow> (if ivs = [] then Inr [] else Inl TypeError)
         | Some p \<Rightarrow>
             Inr (map (\<lambda>iv. case iv of None \<Rightarrow> None | Some v \<Rightarrow> fromBufferAttribute p v) ivs))"

text \<open>\<^verbatim>\<open>getBoundingBoxAt(geometryId, target)\<close>; the result \<open>None\<close> is \<^verbatim>\<open>null\<close>.\<close>

definition getBoundingBoxAt :: "batch \<Rightarrow> int \<Rightarrow> (error + box3 option) \<times> batch" where
  "getBoundingBoxAt s geometryId =
     (if geometryCount s \<le> geometryId then (Inr None, s)
      else
        (case infoAt s geometryId of
           None \<Rightarrow> (Inl TypeError, s)
         | Some info \<Rightarrow>
             (case boundingBox info of
                Some b \<Rightarrow> (Inr (Some b), s)
              | None \<Rightarrow>
                  (case rangePoints (geometry s) (start info) (count info) of
                     Inl e \<Rightarrow> (Inl e, s)
                   | Inr ps \<Rightarrow>
                       (let b = foldl expandByPoint EmptyBox ps
                        in (Inr (Some b), setInfoAt s geometryId (info\<lparr>boundingBox := Some b\<rparr>)))))))"

text \<open>\<^verbatim>\<open>getBoundingSphereAt(geometryId, target)\<close>\<close>

definition getBoundingSphereAt :: "batch \<Rightarrow> int \<Rightarrow> (error + sphere option) \<times> batch" where
  "getBoundingSphereAt s geometryId =
     (if geometryCount s \<le> geometryId then (Inr None, s)
      else
        (case infoAt s geometryId of
           None \<Rightarrow> (Inl TypeError, s)
         | Some info \<Rightarrow>
             (case boundingSphere info of
                Some sp \<Rightarrow> (Inr (Some sp), s)
              | None \<Rightarrow>
                  (case getBoundingBoxAt s geometryId of
                     (Inl e, s1) \<Rightarrow> (Inl e, s1)
                   | (Inr None, s1) \<Rightarrow> (Inl TypeError, s1)
                   | (Inr (Some b), s1) \<Rightarrow>
                       (case rangePoints (geometry s1) (start info) (count info) of
                          Inl e \<Rightarrow> (Inl e, s1)
                        | Inr ps \<Rightarrow>
                            (let sp = sphereOfPoints b ps
                             in (Inr (Some sp),
                                 (case infoAt s1 geometryId of
                                    None \<Rightarrow> s1
                                  | Some info1 \<Rightarrow>
                                      setInfoAt s1 geometryId
                                        (info1\<lparr>boundingSphere := Some sp\<rparr>)))))))))"

subsection \<open>extractGeometry\<close>

text \<open>The first loop: every id is validated by \<^verbatim>\<open>getGeometryAt\<close>, the counts are summed.\<close>

fun extractTotals :: "batch \<Rightarrow> int list \<Rightarrow> int \<times> int \<Rightarrow> error + int \<times> int" where
  "extractTotals s [] acc = Inr acc"
| "extractTotals s (geometryId # ids) (totalVertexCount, totalIndexCount) =
     (case getGeometryAt s geometryId of
        Inl e \<Rightarrow> Inl e
      | Inr info \<Rightarrow>
          extractTotals s ids
            (totalVertexCount + vertexCount info,
             (if index (geometry s) \<noteq> None then totalIndexCount + indexCount info
              else totalIndexCount)))"

text \<open>The second loop, for a batch without attributes: only the indices are copied.\<close>

fun extractIndices :: "batch \<Rightarrow> int list \<Rightarrow> int \<times> int \<Rightarrow> (indexKind \<times> int list) option \<Rightarrow>
    error + (indexKind \<times> int list) option" where
  "extractIndices s [] acc dstIndex = Inr dstIndex"
| "extractIndices s (geometryId # ids) (vOffset, iOffset) dstIndex =
     (case getGeometryAt s geometryId of
        Inl e \<Rightarrow> Inl e
      | Inr info \<Rightarrow>
          extractIndices s ids (vOffset + vertexCount info, iOffset + indexCount info)
            (case (index (geometry s), dstIndex) of
               (Some (sk, srcArr), Some (dk, dstArr)) \<Rightarrow>
                 Some (dk, paste dstArr iOffset
                         (map (\<lambda>i. case readAt srcArr (indexStart info + i) of
                                      None \<Rightarrow> 0
                                    | Some v \<Rightarrow> wrapIndex dk (v - vertexStart info + vOffset))
                            [0 .. indexCount info - 1]))
             | _ \<Rightarrow> dstIndex))"

text \<open>
  \<^verbatim>\<open>extractGeometry(batchIds)\<close>. The loop over \<^verbatim>\<open>src.attributes\<close> allocates
  \<^verbatim>\<open>new array.constructor(maxVertexCount * itemSize)\<close>. No \<^verbatim>\<open>maxVertexCount\<close> is in scope
  there: the method declares \<^verbatim>\<open>totalVertexCount\<close> and \<^verbatim>\<open>totalIndexCount\<close>, the module
  declares \<^verbatim>\<open>_box\<close>, \<^verbatim>\<open>_vector\<close>, \<^verbatim>\<open>_raycastObject\<close> and \<^verbatim>\<open>_batchIntersects\<close>, and the line is under
  \<^verbatim>\<open>@ts-expect-error\<close>. The first turn of the loop throws a ReferenceError.
\<close>

definition extractGeometry :: "batch \<Rightarrow> int list \<Rightarrow> error + bufferGeometry" where
  "extractGeometry s batchIds =
     (case extractTotals s batchIds (0, 0) of
        Inl e \<Rightarrow> Inl e
      | Inr (totalVertexCount, totalIndexCount) \<Rightarrow>
          (if attributes (geometry s) \<noteq> [] then Inl (ReferenceError ''maxVertexCount'')
           else
             (case (case index (geometry s) of
                      None \<Rightarrow> Inr None
                    | Some _ \<Rightarrow>
                        (case newTypedArray (of_int totalIndexCount) of
                           Inl e \<Rightarrow> Inl e
                         | Inr len \<Rightarrow>
                             Inr (Some (if 65535 < totalVertexCount then U32 else U16,
                                        replicate len 0)))) of
                Inl e \<Rightarrow> Inl e
              | Inr dstIndex0 \<Rightarrow>
                  (case extractIndices s batchIds (0, 0) dstIndex0 of
                     Inl e \<Rightarrow> Inl e
                   | Inr dstIndex \<Rightarrow>
                       Inr (ensureBounds (emptyGeometry\<lparr>index := dstIndex\<rparr>))))))"

subsection \<open>Ray intersection\<close>

text \<open>
  The ray tests themselves are three.js code: \<open>rayBox\<close> stands for
  \<^verbatim>\<open>raycaster.ray.intersectBox(box, _vector)\<close> and \<open>rayLines\<close> for
  \<^verbatim>\<open>_raycastObject.raycast(raycaster, _batchIntersects)\<close>, which tests the segments of the
  draw range \<^verbatim>\<open>(start, count)\<close> of the shared buffers, clipped to the buffer, after a test
  of the bounding sphere. An intersection carries the hit of the test, the \<^verbatim>\<open>batchId\<close>
  and the \<^verbatim>\<open>objectId\<close>.
\<close>

definition drawnPoints :: "bufferGeometry \<Rightarrow> int \<Rightarrow> int \<Rightarrow> vec3 option list" where
  "drawnPoints g start' count' =
     (let n = (case index g of
                 None \<Rightarrow> (case getAttribute g ''position'' of None \<Rightarrow> 0 | Some p \<Rightarrow> attr_count p)
               | Some (k, arr) \<Rightarrow> int (length arr))
      in case rangePoints g (max 0 start') (min n (start' + count') - max 0 start') of
           Inl e \<Rightarrow> []
         | Inr ps \<Rightarrow> ps)"

text \<open>\<^verbatim>\<open>_intersectWith(geometryId, raycaster, intersects)\<close>; the result is what it pushes.\<close>

definition intersectWith ::
  "(box3 \<Rightarrow> 'h option) \<Rightarrow> (box3 option \<Rightarrow> sphere option \<Rightarrow> vec3 option list \<Rightarrow> 'h list) \<Rightarrow>
   batch \<Rightarrow> int \<Rightarrow> (error + ('h \<times> int \<times> string option) list) \<times> batch" where
  "intersectWith rayBox rayLines s geometryId =
     (case infoAt s geometryId of
        None \<Rightarrow> (Inl TypeError, s)
      | Some info \<Rightarrow>
          (if \<not> visible info then (Inr [], s)
           else if \<not> active info then (Inr [], s)
           else if bboxIntersectionCheck info then
             (case boundingBox info of
                None \<Rightarrow> (Inl TypeError, s)
              | Some b \<Rightarrow>
                  (case rayBox b of
                     None \<Rightarrow> (Inr [], s)
                   | Some h \<Rightarrow> (Inr [(h, geometryId, objectId info)], s)))
           else
             (case getBoundingBoxAt s geometryId of
                (Inl e, s1) \<Rightarrow> (Inl e, s1)
              | (Inr b, s1) \<Rightarrow>
                  (case getBoundingSphereAt s1 geometryId of
                     (Inl e, s2) \<Rightarrow> (Inl e, s2)
                   | (Inr sp, s2) \<Rightarrow>
                       (Inr (map (\<lambda>h. (h, geometryId, objectId info))
                               (rayLines b sp (drawnPoints (geometry s2) (start info) (count info)))),
                        s2)))))"

text \<open>\<^verbatim>\<open>raycast(raycaster, intersects)\<close>: every slot in turn.\<close>

fun raycastFrom ::
  "(box3 \<Rightarrow> 'h option) \<Rightarrow> (box3 option \<Rightarrow> sphere option \<Rightarrow> vec3 option list \<Rightarrow> 'h list) \<Rightarrow>
   batch \<Rightarrow> int list \<Rightarrow> (error + ('h \<times> int \<times> string option) list) \<times> batch" where
  "raycastFrom rayBox rayLines s [] = (Inr [], s)"
| "raycastFrom rayBox rayLines s (i # rest) =
     (case intersectWith rayBox rayLines s i of
        (Inl e, s1) \<Rightarrow> (Inl e, s1)
      | (Inr hs, s1) \<Rightarrow>
          (case raycastFrom rayBox rayLines s1 rest of
             (Inl e, s2) \<Rightarrow> (Inl e, s2)
           | (Inr hs', s2) \<Rightarrow> (Inr (hs @ hs'), s2)))"

definition raycast ::
  "(box3 \<Rightarrow> 'h option) \<Rightarrow> (box3 option \<Rightarrow> sphere option \<Rightarrow> vec3 option list \<Rightarrow> 'h list) \<Rightarrow>
   batch \<Rightarrow> (error + ('h \<times> int \<times> string option) list) \<times> batch" where
  "raycast rayBox rayLines s =
     raycastFrom rayBox rayLines s (map int [0 ..< length (geometryInfo s)])"

text \<open>
  A batch holding some payloads: \<^verbatim>\<open>addGeometry\<close> with the default reservations, one payload
  after the other, stopping at the first error.
\<close>

fun addAll :: "batch \<Rightarrow> bufferGeometry list \<Rightarrow> (error + int list) \<times> batch" where
  "addAll s [] = (Inr [], s)"
| "addAll s (g # gs) =
     (case addGeometry s g (-1) (-1) of
        (Inl e, s1) \<Rightarrow> (Inl e, s1)
      | (Inr h, s1) \<Rightarrow>
          (case addAll s1 gs of
             (Inl e, s2) \<Rightarrow> (Inl e, s2)
           | (Inr hs, s2) \<Rightarrow> (Inr (h # hs), s2)))"

subsection \<open>What allocation and growth compute\<close>

text \<open>
  The attribute \<^verbatim>\<open>_initializeGeometry\<close> allocates for an attribute of its reference, the
  attribute and the index \<^verbatim>\<open>setGeometrySize\<close> leave in the place of an old one (allocated
  for the new capacities, then filled with the old contents), and the name, item size and
  normalized flag of every attribute, which \<^verbatim>\<open>_validateGeometry\<close> compares.
\<close>

definition allocAttribute :: "rat \<Rightarrow> string \<times> attribute \<Rightarrow> string \<times> attribute" where
  "allocAttribute mv na =
     (fst na, \<lparr>itemSize = itemSize (snd na), normalized = normalized (snd na),
               array = replicate (nat \<lfloor>mv * of_nat (itemSize (snd na))\<rfloor>) 0\<rparr>)"

definition growAttribute :: "rat \<Rightarrow> string \<times> attribute \<Rightarrow> string \<times> attribute" where
  "growAttribute mv na =
     (fst na, \<lparr>itemSize = itemSize (snd na), normalized = normalized (snd na),
               array = copyArrayContents (array (snd na))
                         (replicate (nat \<lfloor>mv * of_nat (itemSize (snd na))\<rfloor>) 0)\<rparr>)"

definition growIndex :: "rat \<Rightarrow> rat \<Rightarrow> indexKind \<times> int list \<Rightarrow> indexKind \<times> int list" where
  "growIndex mv mi ix =
     copyIndexContents ix (if 65535 < mv then U32 else U16, replicate (nat \<lfloor>mi\<rfloor>) 0)"

definition attributeSchema :: "(string \<times> attribute) list \<Rightarrow> (string \<times> nat \<times> bool) list" where
  "attributeSchema as = map (\<lambda>na. (fst na, itemSize (snd na), normalized (snd na))) as"

subsection \<open>Consistent batches and the data of a region\<close>

text \<open>
  The data of a region: its vertices in every attribute of the shared geometry, and its
  indices.
\<close>

definition regionData :: "bufferGeometry \<Rightarrow> region \<Rightarrow> (string \<times> rat list) list \<times> int list" where
  "regionData g r =
     (map (\<lambda>na. (fst na,
                  take (nat (vertexCount r) * itemSize (snd na))
                    (drop (nat (vertexStart r) * itemSize (snd na)) (array (snd na)))))
        (attributes g),
      case index g of
        None \<Rightarrow> []
      | Some (k, arr) \<Rightarrow> take (nat (indexCount r)) (drop (nat (indexStart r)) arr))"

text \<open>
  What holds of a batch as long as it is built by calls of \<^verbatim>\<open>addGeometry\<close> and
  \<^verbatim>\<open>deleteGeometry\<close> only: the table has \<open>geometryCount\<close> slots, the ids of the free list are
  distinct inactive slots of the table, the cursors lie within the capacities, the typed
  arrays have the length they were allocated with and hold values of their element type,
  and every active region lies below the cursors. (\<^verbatim>\<open>optimize\<close> sets the cursors behind the
  vertices in use, not behind the reservations: a \<^verbatim>\<open>setGeometryAt\<close> after it can leave a
  region that ends behind the cursor.)
\<close>

definition consistent :: "batch \<Rightarrow> bool" where
  "consistent s \<longleftrightarrow>
     geometryInitialized s \<and>
     geometryCount s = int (length (geometryInfo s)) \<and>
     distinct (map fst (attributes (geometry s))) \<and>
     getAttribute (geometry s) ''position'' \<noteq> None \<and>
     distinct (availableGeometryIds s) \<and>
     (\<forall>h \<in> set (availableGeometryIds s).
        0 \<le> h \<and> h < int (length (geometryInfo s)) \<and> \<not> active (geometryInfo s ! nat h)) \<and>
     0 \<le> nextVertexStart s \<and> of_int (nextVertexStart s) \<le> maxVertexCount s \<and>
     (\<forall>na \<in> set (attributes (geometry s)).
        length (array (snd na)) = nat \<lfloor>maxVertexCount s * of_nat (itemSize (snd na))\<rfloor>) \<and>
     (\<forall>r \<in> set (geometryInfo s). active r \<longrightarrow>
        0 \<le> vertexStart r \<and> 0 \<le> vertexCount r \<and>
        vertexStart r + vertexCount r \<le> nextVertexStart s) \<and>
     (case index (geometry s) of
        None \<Rightarrow> True
      | Some (k, arr) \<Rightarrow>
        0 \<le> nextIndexStart s \<and> of_int (nextIndexStart s) \<le> maxIndexCount s \<and>
        k = (if 65535 < maxVertexCount s then U32 else U16) \<and>
        length arr = nat \<lfloor>maxIndexCount s\<rfloor> \<and>
        (\<forall>v \<in> set arr. wrapIndex k v = v) \<and>
        (\<forall>r \<in> set (geometryInfo s). active r \<longrightarrow>
           0 \<le> indexStart r \<and> 0 \<le> indexCount r \<and>
           indexStart r + indexCount r \<le> nextIndexStart s))"

text \<open>The handle \<^verbatim>\<open>addGeometry\<close> gives out: the lowest id of the free list, or a new slot.\<close>

definition nextHandle :: "batch \<Rightarrow> int" where
  "nextHandle s =
     (case sortBy ascIdSort (availableGeometryIds s) of
        [] \<Rightarrow> geometryCount s
      | h # rest \<Rightarrow> h)"

text \<open>
  The region \<^verbatim>\<open>addGeometry\<close> records for a payload added with the default reservations,
  and the table with this region in the slot of the handle.
\<close>

definition addedRegion :: "batch \<Rightarrow> bufferGeometry \<Rightarrow> attribute \<Rightarrow> region" where
  "addedRegion s g positionAttribute =
     \<lparr>vertexStart = nextVertexStart s,
      vertexCount = attr_count positionAttribute,
      reservedVertexCount = attr_count positionAttribute,
      indexStart = (if index g = None then -1 else nextIndexStart s),
      indexCount = (if index g = None then -1 else indexCountOf g),
      reservedIndexCount = (if index g = None then -1 else indexCountOf g),
      start = (if index g = None then nextVertexStart s else nextIndexStart s),
      count = (if index g = None then attr_count positionAttribute else indexCountOf g),
      boundingBox = geomBoundingBox (ensureBounds g),
      boundingSphere = geomBoundingSphere (ensureBounds g),
      active = True, visible = True, objectId = None, bboxIntersectionCheck = False\<rparr>"

definition placeInfo :: "batch \<Rightarrow> region \<Rightarrow> region list" where
  "placeInfo s info =
     (if availableGeometryIds s = [] then geometryInfo s @ [info]
      else (geometryInfo s)[nat (nextHandle s) := info])"

text \<open>
  A new batch after \<^verbatim>\<open>_initializeGeometry(g)\<close>, the first thing \<^verbatim>\<open>addGeometry(g)\<close> does to it.
\<close>

definition initialBatch :: "rat \<Rightarrow> rat \<Rightarrow> bufferGeometry \<Rightarrow> batch" where
  "initialBatch mv mi g =
     (newBatch mv mi)\<lparr>
        geometry := emptyGeometry\<lparr>
          attributes := map (allocAttribute mv) (attributes g),
          index := map_option (\<lambda>ix. (if 65535 < mv then U32 else U16, replicate (nat \<lfloor>mi\<rfloor>) 0))
                     (index g)\<rparr>,
        geometryInitialized := True\<rparr>"

text \<open>The region record one turn of the packing loop of \<^verbatim>\<open>optimize\<close> leaves in the table.\<close>

definition packedRegion :: "bool \<Rightarrow> int \<Rightarrow> int \<Rightarrow> region \<Rightarrow> region" where
  "packedRegion hasIndex nextVertexStart' nextIndexStart' info =
     info\<lparr>vertexStart := nextVertexStart',
          indexStart := (if hasIndex then nextIndexStart' else indexStart info),
          start := (if hasIndex then nextIndexStart' else nextVertexStart'),
          count := (if hasIndex then indexCount info else vertexCount info)\<rparr>"

text \<open>The vertices \<open>[from, to)\<close> a handle's region occupies in the shared vertex buffer.\<close>

definition vertexRange :: "batch \<Rightarrow> int \<Rightarrow> (int \<times> int) option" where
  "vertexRange s h =
     map_option (\<lambda>r. (vertexStart r, vertexStart r + vertexCount r)) (infoAt s h)"

text \<open>
  What \<^verbatim>\<open>_validateGeometry\<close> asks of a payload, said at once: the payload has an index exactly
  when the batch has one, and every attribute of the batch is an attribute of the payload
  with the same item size and normalized flag. The three errors it throws are the schema
  errors.
\<close>

definition matchesSchema :: "batch \<Rightarrow> bufferGeometry \<Rightarrow> bool" where
  "matchesSchema s g \<longleftrightarrow>
     (index g \<noteq> None) = (index (geometry s) \<noteq> None) \<and>
     list_all (\<lambda>na. case getAttribute g (fst na) of
                       None \<Rightarrow> False
                     | Some srcAttribute \<Rightarrow>
                         itemSize srcAttribute = itemSize (snd na) \<and>
                         normalized srcAttribute = normalized (snd na))
       (attributes (geometry s))"

fun schemaError :: "error \<Rightarrow> bool" where
  "schemaError IndexConsistency = True"
| "schemaError (MissingAttribute n) = True"
| "schemaError ItemSizeConsistency = True"
| "schemaError e = False"

text \<open>The reserved vertices \<open>[from, to)\<close> of a region, and when two such ranges share a vertex.\<close>

definition reservedVertexRange :: "region \<Rightarrow> int \<times> int" where
  "reservedVertexRange r = (vertexStart r, vertexStart r + reservedVertexCount r)"

definition overlap :: "int \<times> int \<Rightarrow> int \<times> int \<Rightarrow> bool" where
  "overlap a b \<longleftrightarrow> max (fst a) (fst b) < min (snd a) (snd b)"

subsection \<open>Reservations and batches built by calls\<close>

text \<open>
  The spans \<^verbatim>\<open>addGeometry\<close> reserves:
  \<^verbatim>\<open>reservedVertexCount === -1 ? geometry.getAttribute('position').count : reservedVertexCount\<close>
  and \<^verbatim>\<open>reservedIndexCount === -1 ? index.count : reservedIndexCount\<close>.
\<close>

definition vertexSpan :: "attribute \<Rightarrow> int \<Rightarrow> int" where
  "vertexSpan positionAttribute reservedVertexCount' =
     (if reservedVertexCount' = -1 then attr_count positionAttribute else reservedVertexCount')"

definition indexSpan :: "bufferGeometry \<Rightarrow> int \<Rightarrow> int" where
  "indexSpan g reservedIndexCount' =
     (if reservedIndexCount' = -1 then indexCountOf g else reservedIndexCount')"

text \<open>
  The two checks of the reserved spans. \<^verbatim>\<open>addGeometry\<close> throws "Reserved space request exceeds
  the maximum buffer size" when a span, laid at the cursor, ends behind the capacity
  \<^verbatim>\<open>_resizeSpaceIfNeeded\<close> has left; \<^verbatim>\<open>setGeometryAt\<close> throws "Reserved space not large enough
  for provided geometry" when a span is shorter than the payload.
\<close>

definition exceedsCapacity :: "batch \<Rightarrow> bufferGeometry \<Rightarrow> attribute \<Rightarrow> int \<Rightarrow> int \<Rightarrow> bool" where
  "exceedsCapacity s g positionAttribute reservedVertexCount' reservedIndexCount' \<longleftrightarrow>
     (index g \<noteq> None \<and>
      newMaxIndexCount s g < of_int (nextIndexStart s + indexSpan g reservedIndexCount')) \<or>
     newMaxVertexCount s g <
       of_int (nextVertexStart s + vertexSpan positionAttribute reservedVertexCount')"

definition tooSmall :: "bufferGeometry \<Rightarrow> attribute \<Rightarrow> int \<Rightarrow> int \<Rightarrow> bool" where
  "tooSmall g positionAttribute reservedVertexCount' reservedIndexCount' \<longleftrightarrow>
     (index g \<noteq> None \<and> indexSpan g reservedIndexCount' < indexCountOf g) \<or>
     vertexSpan positionAttribute reservedVertexCount' < attr_count positionAttribute"

text \<open>
  The region \<^verbatim>\<open>addGeometry\<close> records for a payload added with the reservations \<open>rv\<close> and
  \<open>ri\<close>.
\<close>

definition reservedRegion :: "batch \<Rightarrow> bufferGeometry \<Rightarrow> attribute \<Rightarrow> int \<Rightarrow> int \<Rightarrow> region" where
  "reservedRegion s g positionAttribute rv ri =
     (addedRegion s g positionAttribute)\<lparr>
        reservedVertexCount := vertexSpan positionAttribute rv,
        reservedIndexCount := (if index g = None then -1 else indexSpan g ri)\<rparr>"



subsection \<open>Payloads and batches of the scenarios\<close>

text \<open>A payload with a position attribute of three components, and an optional index.\<close>

definition payload :: "rat list \<Rightarrow> int list option \<Rightarrow> bufferGeometry" where
  "payload ps ix =
     \<lparr>attributes = [(''position'', \<lparr>itemSize = 3, normalized = False, array = ps\<rparr>)],
      index = map_option (Pair U16) ix,
      geomBoundingBox = None, geomBoundingSphere = None, drawRange = (0, None)\<rparr>"

text \<open>Four vertices and three segments; six vertices and three segments.\<close>

definition quad :: bufferGeometry where
  "quad = payload [0, 0, 0, 1, 0, 0, 1, 1, 0, 0, 1, 0] (Some [0, 1, 1, 2, 2, 3])"

definition strip :: bufferGeometry where
  "strip = payload [5, 5, 0, 6, 5, 0, 7, 5, 0, 8, 5, 0, 9, 5, 0, 10, 5, 0]
             (Some [0, 1, 2, 3, 4, 5])"

text \<open>\<^verbatim>\<open>new AcTrBatchedLine(12, 24)\<close> after \<^verbatim>\<open>addGeometry(quad)\<close>.\<close>

definition oneQuad :: batch where
  "oneQuad = snd (addGeometry (newBatch 12 24) quad (-1) (-1))"

text \<open>
  The scenario of the handle that is reused: \<^verbatim>\<open>new AcTrBatchedLine(1000)\<close>,
  \<^verbatim>\<open>addGeometry(quad)\<close>, \<^verbatim>\<open>addGeometry(strip)\<close>, \<^verbatim>\<open>deleteGeometry(0)\<close>, \<^verbatim>\<open>addGeometry(quad)\<close>.
\<close>

definition reused :: batch where
  "reused =
     snd (addGeometry
            (snd (deleteGeometry
                    (snd (addGeometry (snd (addGeometry (newBatch 1000 2000) quad (-1) (-1)))
                            strip (-1) (-1)))
                    0))
            quad (-1) (-1))"

text \<open>Then \<^verbatim>\<open>addGeometry(strip)\<close>: ten of the twelve vertices are in use.\<close>

definition twoShapes :: batch where
  "twoShapes = snd (addGeometry oneQuad strip (-1) (-1))"

text \<open>Then \<^verbatim>\<open>deleteGeometry(0)\<close>: the quad's vertices and indices are free, the strip's follow them.\<close>

definition fragmented :: batch where
  "fragmented = snd (deleteGeometry twoShapes 0)"

text \<open>
  Then \<^verbatim>\<open>setGeometryAt(1, strip)\<close> with a payload whose bounds have not been computed: the
  region keeps no cached bounds.
\<close>

definition uncached :: batch where
  "uncached = snd (setGeometryAt fragmented 1 strip)"

text \<open>
  \<^verbatim>\<open>new AcTrBatchedLine(12, 24)\<close>, \<^verbatim>\<open>addGeometry(quad, 8)\<close> with eight vertices reserved for the
  four of the quad, then \<^verbatim>\<open>addGeometry(quad)\<close>.
\<close>

definition padded :: batch where
  "padded = snd (addGeometry (snd (addGeometry (newBatch 12 24) quad 8 (-1))) quad (-1) (-1))"

text \<open>The quad with a colour for every vertex, and the quad without its index.\<close>

definition coloured :: bufferGeometry where
  "coloured = quad\<lparr>attributes := attributes quad @
     [(''color'', \<lparr>itemSize = 3, normalized = False,
                   array = [1, 0, 0, 1, 0, 0, 1, 0, 0, 1, 0, 0]\<rparr>)]\<rparr>"

definition unindexed :: bufferGeometry where
  "unindexed = quad\<lparr>index := None\<rparr>"

section \<open>Properties\<close>

subsection \<open>Writing into typed arrays\<close>

lemma length_writeAt [simp]: "length (writeAt xs i v) = length xs"
  by (simp add: writeAt_def)

lemma length_paste [simp]: "length (paste xs off vs) = length xs"
  by (induction vs arbitrary: xs off) simp_all

lemma take_writeAt: "int k \<le> i \<Longrightarrow> take k (writeAt xs i v) = take k xs"
  by (simp add: writeAt_def)

lemma take_paste: "int k \<le> off \<Longrightarrow> take k (paste xs off vs) = take k xs"
  by (induction vs arbitrary: xs off) (simp_all add: take_writeAt)

lemma paste_closed:
  "0 \<le> off \<Longrightarrow> nat off + length vs \<le> length xs \<Longrightarrow>
   paste xs off vs = take (nat off) xs @ vs @ drop (nat off + length vs) xs"
proof (induction vs arbitrary: xs off)
  case Nil
  then show ?case by simp
next
  case (Cons v vs)
  have w: "writeAt xs off v = take (nat off) xs @ v # drop (Suc (nat off)) xs"
  proof -
    have "off < int (length xs)" using Cons.prems by auto
    then show ?thesis using Cons.prems by (simp add: writeAt_def upd_conv_take_nth_drop)
  qed
  have "paste (writeAt xs off v) (off + 1) vs =
        take (nat (off + 1)) (writeAt xs off v) @ vs @ drop (nat (off + 1) + length vs) (writeAt xs off v)"
    using Cons.prems by (intro Cons.IH) auto
  moreover have "nat (off + 1) = Suc (nat off)" using Cons.prems by simp
  moreover have "take (Suc (nat off)) (writeAt xs off v) = take (nat off) xs @ [v]"
    using Cons.prems by (simp add: w)
  moreover have "drop (Suc (nat off) + length vs) (writeAt xs off v) = drop (Suc (nat off) + length vs) xs"
    using Cons.prems by (simp add: w add.commute)
  ultimately show ?case by simp
qed

lemma set_writeAt: "set (writeAt xs i v) \<subseteq> insert v (set xs)"
  by (auto simp: writeAt_def dest: set_update_subset_insert [THEN subsetD])

lemma set_paste: "set (paste xs off vs) \<subseteq> set xs \<union> set vs"
proof (induction vs arbitrary: xs off)
  case Nil
  then show ?case by simp
next
  case (Cons v vs)
  have "set (paste (writeAt xs off v) (off + 1) vs) \<subseteq> set (writeAt xs off v) \<union> set vs"
    by (rule Cons.IH)
  with set_writeAt [of xs off v] show ?case by auto
qed

lemma take_fold_paste:
  "(\<And>i. i \<in> set js \<Longrightarrow> int k \<le> f i) \<Longrightarrow>
   take k (fold (\<lambda>i arr. paste arr (f i) zs) js arr) = take k arr"
  by (induction js arbitrary: arr) (simp_all add: take_paste)

lemma length_fold_paste [simp]:
  "length (fold (\<lambda>i arr. paste arr (f i) zs) js arr) = length arr"
  by (induction js arbitrary: arr) simp_all

lemma slice_cong:
  assumes "take k xs = take k ys" and "off + len \<le> k"
  shows "take len (drop off xs) = take len (drop off ys)"
proof -
  have "take len (drop off xs) = drop off (take (off + len) (take k xs))"
    using assms(2) by (simp add: drop_take min_def)
  also have "\<dots> = drop off (take (off + len) (take k ys))"
    by (simp only: assms(1))
  also have "\<dots> = take len (drop off ys)"
    using assms(2) by (simp add: drop_take min_def)
  finally show ?thesis .
qed

lemma copyArrayContents_grow:
  "length old \<le> n \<Longrightarrow> copyArrayContents old (replicate n z) = old @ replicate (n - length old) z"
  by (simp add: copyArrayContents_def paste_closed)

subsection \<open>Allocation and growth\<close>

lemma newTypedArray_nonneg: "0 \<le> n \<Longrightarrow> newTypedArray n = Inr (nat \<lfloor>n\<rfloor>)"
  by (simp add: newTypedArray_def)

lemma setAttribute_new: "n \<notin> fst ` set acc \<Longrightarrow> setAttribute n a acc = acc @ [(n, a)]"
  by (induction acc) auto

lemma setAttribute_found:
  "n \<notin> fst ` set pre \<Longrightarrow> setAttribute n a (pre @ (n, b) # rest) = pre @ (n, a) # rest"
  by (induction pre) auto

lemma map_of_skip: "n \<notin> fst ` set pre \<Longrightarrow> map_of (pre @ rest) n = map_of rest n"
  by (induction pre) auto

lemma initAttributes_alloc:
  assumes "0 \<le> mv" and "distinct (map fst as)" and "fst ` set acc \<inter> fst ` set as = {}"
  shows "initAttributes mv as acc = (None, acc @ map (allocAttribute mv) as)"
  using assms(2,3)
proof (induction as arbitrary: acc)
  case Nil
  then show ?case by simp
next
  case (Cons na as)
  obtain n a where na: "na = (n, a)" by (cases na)
  have len: "newTypedArray (mv * of_nat (itemSize a)) = Inr (nat \<lfloor>mv * of_nat (itemSize a)\<rfloor>)"
    using assms(1) by (intro newTypedArray_nonneg) simp
  have fresh: "n \<notin> fst ` set acc" using Cons.prems(2) na by auto
  let ?acc = "acc @ [allocAttribute mv na]"
  have "initAttributes mv as ?acc = (None, ?acc @ map (allocAttribute mv) as)"
    using Cons.prems na by (intro Cons.IH) (auto simp: allocAttribute_def)
  then show ?case
    using fresh by (simp add: na len setAttribute_new allocAttribute_def)
qed

lemma copyOldAttributes_zip:
  assumes "distinct (map fst old)" and "map fst new = map fst old"
    and "fst ` set pre \<inter> fst ` set old = {}"
  shows "copyOldAttributes old (pre @ new) =
         pre @ map2 (\<lambda>oa a. (fst a, (snd a)\<lparr>array := copyArrayContents (array (snd oa)) (array (snd a))\<rparr>))
                 old new"
  using assms
proof (induction old arbitrary: new pre)
  case Nil
  then show ?case by simp
next
  case (Cons oa old)
  obtain n o' where oa: "oa = (n, o')" by (cases oa)
  from Cons.prems(2) oa obtain a new' where new: "new = (n, a) # new'" and names: "map fst new' = map fst old"
    by (cases new) auto
  have fresh: "n \<notin> fst ` set pre" using Cons.prems(3) oa by auto
  let ?a = "a\<lparr>array := copyArrayContents (array o') (array a)\<rparr>"
  have "map_of (pre @ new) n = map_of new n"
    by (rule map_of_skip [OF fresh])
  then have look: "map_of (pre @ new) n = Some a"
    by (simp only: new map_of.simps fun_upd_same fst_conv snd_conv)
  have upd: "setAttribute n ?a (pre @ new) = (pre @ [(n, ?a)]) @ new'"
    using fresh by (simp add: new setAttribute_found)
  have step: "copyOldAttributes (oa # old) (pre @ new) =
              copyOldAttributes old (setAttribute n ?a (pre @ new))"
    by (simp only: oa copyOldAttributes.simps look option.case)
  have "copyOldAttributes old ((pre @ [(n, ?a)]) @ new') =
        (pre @ [(n, ?a)]) @ map2 (\<lambda>oa a. (fst a, (snd a)\<lparr>array := copyArrayContents (array (snd oa)) (array (snd a))\<rparr>)) old new'"
    using Cons.prems oa names by (intro Cons.IH) auto
  then show ?case
    unfolding step upd by (simp add: oa new)
qed

lemma map2_alloc:
  "map2 (\<lambda>oa a. (fst a, (snd a)\<lparr>array := copyArrayContents (array (snd oa)) (array (snd a))\<rparr>))
     old (map (allocAttribute mv) old) = map (growAttribute mv) old"
  by (induction old) (simp_all add: allocAttribute_def growAttribute_def)

lemma setGeometrySize_grown:
  assumes "geometryInitialized s" and "distinct (map fst (attributes (geometry s)))"
    and "0 \<le> mv" and "index (geometry s) \<noteq> None \<longrightarrow> 0 \<le> mi"
  shows "setGeometrySize s mv mi =
         (None, s\<lparr>maxVertexCount := mv, maxIndexCount := mi,
                  geometry := emptyGeometry\<lparr>
                    attributes := map (growAttribute mv) (attributes (geometry s)),
                    index := map_option (growIndex mv mi) (index (geometry s))\<rparr>\<rparr>)"
proof -
  let ?as = "attributes (geometry s)"
  have init: "initAttributes mv ?as [] = (None, map (allocAttribute mv) ?as)"
    using initAttributes_alloc [OF assms(3) assms(2), of "[]"] by simp
  have copy: "copyOldAttributes ?as (map (allocAttribute mv) ?as) = map (growAttribute mv) ?as"
    using copyOldAttributes_zip [OF assms(2), of "map (allocAttribute mv) ?as" "[]"]
    by (simp add: map2_alloc allocAttribute_def comp_def)
  show ?thesis
  proof (cases "index (geometry s)")
    case None
    then show ?thesis
      using assms(1) init copy
      by (simp add: setGeometrySize_def initializeGeometry_def emptyGeometry_def)
  next
    case (Some ix)
    with assms(4) have "newTypedArray mi = Inr (nat \<lfloor>mi\<rfloor>)"
      by (intro newTypedArray_nonneg) simp
    with Some show ?thesis
      using assms(1) init copy
      by (simp add: setGeometrySize_def initializeGeometry_def emptyGeometry_def growIndex_def)
  qed
qed

subsection \<open>The schema of a batch\<close>

lemma validateAttributes_schema:
  "attributeSchema as = attributeSchema bs \<Longrightarrow> validateAttributes as g = validateAttributes bs g"
proof (induction as arbitrary: bs)
  case Nil
  then show ?case by (simp add: attributeSchema_def)
next
  case (Cons a as)
  then obtain b bs' where bs: "bs = b # bs'" by (cases bs) (auto simp: attributeSchema_def)
  with Cons.prems have hd: "fst a = fst b" "itemSize (snd a) = itemSize (snd b)"
      "normalized (snd a) = normalized (snd b)" and tl: "attributeSchema as = attributeSchema bs'"
    by (auto simp: attributeSchema_def)
  from Cons.IH [OF tl] hd show ?case
    by (cases a; cases b) (auto simp: bs split: option.splits)
qed

lemma validateGeometry_schema:
  assumes "attributeSchema (attributes (geometry s')) = attributeSchema (attributes (geometry s))"
    and "(index (geometry s') \<noteq> None) = (index (geometry s) \<noteq> None)"
  shows "validateGeometry s' g = validateGeometry s g"
  unfolding validateGeometry_def assms(2) validateAttributes_schema [OF assms(1), of g] ..

lemma validateGeometry_payload:
  assumes "attributes g' = attributes g" and "index g' = index g"
  shows "validateGeometry s g' = validateGeometry s g"
proof -
  have "validateAttributes as g' = validateAttributes as g" for as
    by (induction as) (auto simp: getAttribute_def assms(1) split: option.splits)
  then show ?thesis unfolding validateGeometry_def assms(2) by (simp only:)
qed

lemma attributes_ensureBounds [simp]: "attributes (ensureBounds g) = attributes g"
  by (simp add: ensureBounds_def Let_def)

lemma index_ensureBounds [simp]: "index (ensureBounds g) = index g"
  by (simp add: ensureBounds_def Let_def)

lemma getAttribute_ensureBounds [simp]: "getAttribute (ensureBounds g) n = getAttribute g n"
  by (simp add: getAttribute_def)

lemma indexCountOf_ensureBounds [simp]: "indexCountOf (ensureBounds g) = indexCountOf g"
  by (simp add: indexCountOf_def)

lemma validateAttributes_present:
  "validateAttributes as g = None \<Longrightarrow> n \<in> fst ` set as \<Longrightarrow> getAttribute g n \<noteq> None"
proof (induction as)
  case Nil
  then show ?case by simp
next
  case (Cons a as)
  obtain m b where a: "a = (m, b)" by (cases a)
  from Cons.prems(1) a have hd: "getAttribute g m \<noteq> None" and tl: "validateAttributes as g = None"
    by (auto split: option.splits if_splits)
  show ?case
  proof (cases "n = m")
    case True
    with hd show ?thesis by simp
  next
    case False
    with Cons.prems(2) a have "n \<in> fst ` set as" by auto
    with Cons.IH tl show ?thesis by blast
  qed
qed

lemma attributeSchema_names: "attributeSchema as = attributeSchema bs \<Longrightarrow> map fst as = map fst bs"
proof -
  assume "attributeSchema as = attributeSchema bs"
  then have "map fst (attributeSchema as) = map fst (attributeSchema bs)" by simp
  then show ?thesis by (simp add: attributeSchema_def comp_def)
qed

lemma map_of_names: "map fst as = map fst bs \<Longrightarrow> (map_of as n = None) = (map_of bs n = None)"
  by (metis list.set_map map_of_eq_None_iff)

lemma attributeSchema_grow [simp]: "attributeSchema (map (growAttribute mv) as) = attributeSchema as"
  by (simp add: attributeSchema_def growAttribute_def comp_def)

subsection \<open>Writing a payload leaves what lies below it\<close>

lemma writeAttribute_meta [simp]:
  "fst (writeAttribute g vs rv na) = fst na"
  "itemSize (snd (writeAttribute g vs rv na)) = itemSize (snd na)"
  "normalized (snd (writeAttribute g vs rv na)) = normalized (snd na)"
  "length (array (snd (writeAttribute g vs rv na))) = length (array (snd na))"
  by (simp_all add: writeAttribute_def zeroFill_def copyAttributeData_def split: option.splits)

lemma attributeSchema_write [simp]:
  "attributeSchema (map (writeAttribute g vs rv) as) = attributeSchema as"
  by (simp add: attributeSchema_def comp_def)

lemma writeAttribute_take:
  assumes "0 \<le> vs" and "k \<le> nat vs * itemSize (snd na)"
  shows "take k (array (snd (writeAttribute g vs rv na))) = take k (array (snd na))"
proof (cases "getAttribute g (fst na)")
  case None
  then show ?thesis by (simp add: writeAttribute_def)
next
  case (Some src)
  have below: "int k \<le> vs * int (itemSize (snd na))"
  proof -
    have "int k \<le> int (nat vs * itemSize (snd na))" using assms(2) by (simp only: of_nat_le_iff)
    also have "\<dots> = vs * int (itemSize (snd na))" using assms(1) by simp
    finally show ?thesis .
  qed
  have fill: "int k \<le> (vs + i) * int (itemSize (snd na))"
    if "i \<in> set [attr_count src .. rv - 1]" for i
  proof -
    have "0 \<le> i" using that by (simp add: attr_count_def)
    then have "vs * int (itemSize (snd na)) \<le> (vs + i) * int (itemSize (snd na))"
      by (intro mult_right_mono) simp_all
    with below show ?thesis by linarith
  qed
  let ?dst = "paste (array (snd na)) (vs * int (itemSize (snd na))) (array src)"
  have "take k (fold (\<lambda>i arr. paste arr ((vs + i) * int (itemSize (snd na)))
                                 (replicate (itemSize src) 0))
                  [attr_count src .. rv - 1] ?dst) = take k ?dst"
    by (rule take_fold_paste) (rule fill)
  also have "\<dots> = take k (array (snd na))"
    by (rule take_paste) (rule below)
  finally show ?thesis
    using Some by (simp add: writeAttribute_def zeroFill_def copyAttributeData_def)
qed

lemma writeIndex_meta [simp]:
  "fst (writeIndex dst src i vs rc) = fst dst"
  "length (snd (writeIndex dst src i vs rc)) = length (snd dst)"
  by (simp_all add: writeIndex_def)

lemma writeIndex_take:
  "0 \<le> i \<Longrightarrow> k \<le> nat i \<Longrightarrow> take k (snd (writeIndex dst src i vs rc)) = take k (snd dst)"
  by (simp add: writeIndex_def take_paste)

lemma wrapIndex_idem [simp]: "wrapIndex k (wrapIndex k v) = wrapIndex k v"
  by (cases k) (simp_all add: wrapIndex_def)

lemma writeIndex_wrapped:
  assumes "\<forall>v \<in> set (snd dst). wrapIndex (fst dst) v = v"
  shows "\<forall>v \<in> set (snd (writeIndex dst src i vs rc)). wrapIndex (fst dst) v = v"
proof
  fix v assume "v \<in> set (snd (writeIndex dst src i vs rc))"
  then have "v \<in> set (snd dst) \<or> v \<in> (\<lambda>v. wrapIndex (fst dst) (vs + v)) ` set src \<or>
             v = wrapIndex (fst dst) vs"
    using set_paste [of "paste (snd dst) i (map (\<lambda>v. wrapIndex (fst dst) (vs + v)) src)"
             "i + int (length src)"
             "replicate (nat (rc - int (length src))) (wrapIndex (fst dst) vs)"]
          set_paste [of "snd dst" i "map (\<lambda>v. wrapIndex (fst dst) (vs + v)) src"]
    by (auto simp: writeIndex_def split: if_splits)
  with assms show "wrapIndex (fst dst) v = v" by auto
qed

subsection \<open>Growth keeps the contents\<close>

lemma growAttribute_array:
  assumes "length (array (snd na)) \<le> nat \<lfloor>mv * of_nat (itemSize (snd na))\<rfloor>"
  shows "array (snd (growAttribute mv na)) =
         array (snd na) @ replicate (nat \<lfloor>mv * of_nat (itemSize (snd na))\<rfloor> - length (array (snd na))) 0"
  using assms by (simp add: growAttribute_def copyArrayContents_grow)

lemma growAttribute_meta [simp]:
  "fst (growAttribute mv na) = fst na"
  "itemSize (snd (growAttribute mv na)) = itemSize (snd na)"
  "normalized (snd (growAttribute mv na)) = normalized (snd na)"
  "length (array (snd (growAttribute mv na))) = nat \<lfloor>mv * of_nat (itemSize (snd na))\<rfloor>"
  by (simp_all add: growAttribute_def copyArrayContents_def)

lemma growAttribute_same:
  assumes "length (array (snd na)) = nat \<lfloor>mv * of_nat (itemSize (snd na))\<rfloor>"
  shows "growAttribute mv na = na"
proof -
  have "copyArrayContents (array (snd na)) (replicate (length (array (snd na))) 0) = array (snd na)"
    by (simp add: copyArrayContents_grow)
  then show ?thesis
    using assms by (cases na) (simp add: growAttribute_def)
qed

lemma wrapIndex_widen:
  assumes "wrapIndex k v = v" and "k = U32 \<longrightarrow> k' = U32"
  shows "wrapIndex k' v = v"
proof (cases k)
  case U16
  with assms(1) have eq: "v mod 65536 = v" by (simp add: wrapIndex_def)
  have b: "0 \<le> v mod 65536 \<and> v mod 65536 < 65536" by simp
  have "0 \<le> v \<and> v < 65536" using b unfolding eq .
  then show ?thesis by (cases k') (simp_all add: wrapIndex_def)
next
  case U32
  with assms show ?thesis by simp
qed

lemma growIndex_array:
  assumes "\<forall>v \<in> set arr. wrapIndex k v = v" and "k = U32 \<longrightarrow> 65535 < mv"
    and "length arr \<le> nat \<lfloor>mi\<rfloor>"
  shows "growIndex mv mi (k, arr) =
         (if 65535 < mv then U32 else U16, arr @ replicate (nat \<lfloor>mi\<rfloor> - length arr) 0)"
proof -
  have "wrapIndex (if 65535 < mv then U32 else U16) v = v" if "v \<in> set arr" for v
    by (rule wrapIndex_widen [of k]) (use assms(1,2) that in auto)
  then have "map (wrapIndex (if 65535 < mv then U32 else U16)) arr = arr"
    by (rule map_idI)
  then show ?thesis
    using assms(3) by (simp add: growIndex_def copyIndexContents_def copyArrayContents_grow)
qed

subsection \<open>The free list\<close>

lemma insertBy_ascIdSort: "insertBy ascIdSort x ys = insort x ys"
  by (induction ys) (simp_all add: ascIdSort_def)

lemma sortBy_ascIdSort: "sortBy ascIdSort xs = sort xs"
proof -
  have "insertBy ascIdSort = insort" by (intro ext) (rule insertBy_ascIdSort)
  then show ?thesis by (simp add: sortBy_def sort_key_def)
qed

lemma nextHandle_empty: "availableGeometryIds s = [] \<Longrightarrow> nextHandle s = geometryCount s"
  by (simp add: nextHandle_def sortBy_ascIdSort)

lemma nextHandle_Min:
  assumes "availableGeometryIds s \<noteq> []"
  shows "nextHandle s = Min (set (availableGeometryIds s))"
    and "sortBy ascIdSort (availableGeometryIds s) = nextHandle s # tl (sort (availableGeometryIds s))"
proof -
  let ?xs = "sort (availableGeometryIds s)"
  from assms have ne: "?xs \<noteq> []" by (metis length_0_conv length_sort)
  then obtain h rest where xs: "?xs = h # rest" by (cases ?xs) auto
  have "sorted ?xs" by simp
  with xs have "\<forall>y \<in> set ?xs. h \<le> y" by auto
  moreover have "h \<in> set ?xs" using xs by simp
  ultimately have "Min (set ?xs) = h" by (intro Min_eqI) auto
  then have "Min (set (availableGeometryIds s)) = h" by (simp only: set_sort)
  moreover have "nextHandle s = h"
    using xs by (simp add: nextHandle_def sortBy_ascIdSort)
  ultimately show "nextHandle s = Min (set (availableGeometryIds s))" by simp
  show "sortBy ascIdSort (availableGeometryIds s) = nextHandle s # tl (sort (availableGeometryIds s))"
    using xs by (simp add: nextHandle_def sortBy_ascIdSort)
qed

lemma nextHandle_member:
  "availableGeometryIds s \<noteq> [] \<Longrightarrow> nextHandle s \<in> set (availableGeometryIds s)"
  using nextHandle_Min(1) [of s] Min_in [of "set (availableGeometryIds s)"] by simp

lemma allocateGeometryId_eq:
  assumes "geometryCount s = int (length (geometryInfo s))"
    and "\<forall>h \<in> set (availableGeometryIds s). 0 \<le> h \<and> h < int (length (geometryInfo s))"
  shows "allocateGeometryId s info =
         (nextHandle s,
          s\<lparr>geometryCount := int (length (placeInfo s info)),
            geometryInfo := placeInfo s info,
            availableGeometryIds := tl (sort (availableGeometryIds s))\<rparr>)"
proof (cases "availableGeometryIds s = []")
  case True
  then show ?thesis
    using assms(1)
    by (simp add: allocateGeometryId_def placeInfo_def sortBy_ascIdSort nextHandle_def)
next
  case False
  from nextHandle_member [OF False] assms(2)
  have range: "0 \<le> nextHandle s" "nextHandle s < int (length (geometryInfo s))" by auto
  show ?thesis
    using False range assms(1)
    by (simp add: allocateGeometryId_def nextHandle_Min(2) [OF False] placeInfo_def
          setInfoAt_def writeAt_def)
qed

lemma placeInfo_at:
  assumes "geometryCount s = int (length (geometryInfo s))"
    and "\<forall>h \<in> set (availableGeometryIds s). 0 \<le> h \<and> h < int (length (geometryInfo s))"
  shows "readAt (placeInfo s info) (nextHandle s) = Some info"
    and "h \<noteq> nextHandle s \<Longrightarrow> readAt (placeInfo s info) h = readAt (geometryInfo s) h"
    and "0 \<le> nextHandle s" and "nextHandle s < int (length (placeInfo s info))"
    and "set (placeInfo s info) \<subseteq> insert info (set (geometryInfo s))"
    and "length (geometryInfo s) \<le> length (placeInfo s info)"
proof -
  have range: "0 \<le> nextHandle s \<and> nextHandle s < int (length (geometryInfo s))"
    if "availableGeometryIds s \<noteq> []"
    using assms(2) nextHandle_member [OF that] by blast
  show "readAt (placeInfo s info) (nextHandle s) = Some info"
  proof (cases "availableGeometryIds s = []")
    case True
    with assms(1) show ?thesis by (simp add: placeInfo_def readAt_def nextHandle_empty)
  next
    case False
    with range have "nat (nextHandle s) < length (geometryInfo s)" by auto
    with False range show ?thesis by (simp add: placeInfo_def readAt_def)
  qed
  show "0 \<le> nextHandle s"
    using range assms(1) by (cases "availableGeometryIds s = []") (simp_all add: nextHandle_empty)
  show "nextHandle s < int (length (placeInfo s info))"
    using range assms(1)
    by (cases "availableGeometryIds s = []") (simp_all add: nextHandle_empty placeInfo_def)
  show "length (geometryInfo s) \<le> length (placeInfo s info)"
    by (simp add: placeInfo_def)
  show "set (placeInfo s info) \<subseteq> insert info (set (geometryInfo s))"
    using set_update_subset_insert [of "geometryInfo s"] by (auto simp: placeInfo_def)
  show "readAt (placeInfo s info) h = readAt (geometryInfo s) h" if "h \<noteq> nextHandle s"
  proof (cases "availableGeometryIds s = []")
    case True
    with that assms(1) show ?thesis
      by (auto simp: placeInfo_def readAt_def nextHandle_empty nth_append)
  next
    case False
    have "nat (nextHandle s) \<noteq> nat h" if "0 \<le> h"
      using that range [OF False] \<open>h \<noteq> nextHandle s\<close> by auto
    with False show ?thesis
      by (auto simp: placeInfo_def readAt_def)
  qed
qed

subsection \<open>What addGeometry asks and reads of a payload\<close>

lemma validateAttributes_matches:
  "(validateAttributes as g = None) =
   list_all (\<lambda>na. case getAttribute g (fst na) of
                     None \<Rightarrow> False
                   | Some srcAttribute \<Rightarrow>
                       itemSize srcAttribute = itemSize (snd na) \<and>
                       normalized srcAttribute = normalized (snd na)) as"
  by (induction as g rule: validateAttributes.induct) (auto split: option.splits if_splits)

lemma validateGeometry_matches: "(validateGeometry s g = None) = matchesSchema s g"
  by (simp add: validateGeometry_def matchesSchema_def validateAttributes_matches)

lemma validateAttributes_error: "validateAttributes as g = Some e \<Longrightarrow> schemaError e"
  by (induction as g rule: validateAttributes.induct) (auto split: option.splits if_splits)

lemma validateGeometry_error: "validateGeometry s g = Some e \<Longrightarrow> schemaError e"
  by (auto simp: validateGeometry_def dest: validateAttributes_error split: if_splits)

lemma getAttribute_extra:
  "getAttribute g n = Some a \<Longrightarrow>
   getAttribute (g\<lparr>attributes := attributes g @ extra\<rparr>) n = Some a"
  by (simp add: getAttribute_def map_add_Some_iff)

lemma matchesSchema_extra:
  assumes "matchesSchema s g"
  shows "matchesSchema s (g\<lparr>attributes := attributes g @ extra\<rparr>)"
proof -
  let ?g = "g\<lparr>attributes := attributes g @ extra\<rparr>"
  let ?P = "\<lambda>g (na :: string \<times> attribute). case getAttribute g (fst na) of
                     None \<Rightarrow> False
                   | Some srcAttribute \<Rightarrow>
                       itemSize srcAttribute = itemSize (snd na) \<and>
                       normalized srcAttribute = normalized (snd na)"
  from assms have ix: "(index g \<noteq> None) = (index (geometry s) \<noteq> None)"
    and all: "list_all (?P g) (attributes (geometry s))"
    unfolding matchesSchema_def by blast+
  have step: "?P ?g na" if "?P g na" for na
  proof (cases "getAttribute g (fst na)")
    case None
    with that show ?thesis by simp
  next
    case (Some a)
    from getAttribute_extra [OF Some, of extra] that Some show ?thesis by simp
  qed
  from all have "list_all (?P ?g) (attributes (geometry s))"
    unfolding list_all_iff using step by blast
  moreover from ix have "(index ?g \<noteq> None) = (index (geometry s) \<noteq> None)" by simp
  ultimately show ?thesis unfolding matchesSchema_def by blast
qed

text \<open>The errors of the steps of \<^verbatim>\<open>addGeometry\<close> behind the validation.\<close>

lemma newTypedArray_cases:
  "newTypedArray n = Inr (nat \<lfloor>n\<rfloor>) \<or> newTypedArray n = Inl RangeError"
  by (simp add: newTypedArray_def)

lemma initAttributes_cases:
  assumes "distinct (map fst as)" and "fst ` set acc \<inter> fst ` set as = {}"
  shows "initAttributes mv as acc = (None, acc @ map (allocAttribute mv) as) \<or>
         (\<exists>res. initAttributes mv as acc = (Some RangeError, res))"
  using assms
proof (induction as arbitrary: acc)
  case Nil
  then show ?case by simp
next
  case (Cons na as)
  obtain n a where na: "na = (n, a)" by (cases na)
  from newTypedArray_cases [of "mv * of_nat (itemSize a)"] show ?case
  proof
    assume len: "newTypedArray (mv * of_nat (itemSize a)) = Inr (nat \<lfloor>mv * of_nat (itemSize a)\<rfloor>)"
    have fresh: "n \<notin> fst ` set acc" using Cons.prems(2) na by auto
    let ?acc = "acc @ [allocAttribute mv na]"
    have "initAttributes mv as ?acc = (None, ?acc @ map (allocAttribute mv) as) \<or>
          (\<exists>res. initAttributes mv as ?acc = (Some RangeError, res))"
      using Cons.prems na by (intro Cons.IH) (auto simp: allocAttribute_def)
    then show ?thesis
      using fresh by (auto simp add: na len setAttribute_new allocAttribute_def)
  next
    assume "newTypedArray (mv * of_nat (itemSize a)) = Inl RangeError"
    then show ?thesis by (simp add: na)
  qed
qed

lemma setGeometrySize_cases:
  assumes "geometryInitialized s" and "distinct (map fst (attributes (geometry s)))"
  shows "setGeometrySize s mv mi =
         (None, s\<lparr>maxVertexCount := mv, maxIndexCount := mi,
                  geometry := emptyGeometry\<lparr>
                    attributes := map (growAttribute mv) (attributes (geometry s)),
                    index := map_option (growIndex mv mi) (index (geometry s))\<rparr>\<rparr>) \<or>
         (\<exists>s2. setGeometrySize s mv mi = (Some RangeError, s2))"
proof -
  let ?as = "attributes (geometry s)"
  from initAttributes_cases [OF assms(2), of "[]" mv]
  consider (ok) "initAttributes mv ?as [] = (None, map (allocAttribute mv) ?as)"
    | (err) res where "initAttributes mv ?as [] = (Some RangeError, res)"
    by auto
  then show ?thesis
  proof cases
    case err
    then show ?thesis
      using assms(1) by (simp add: setGeometrySize_def initializeGeometry_def emptyGeometry_def)
  next
    case ok
    have copy: "copyOldAttributes ?as (map (allocAttribute mv) ?as) = map (growAttribute mv) ?as"
      using copyOldAttributes_zip [OF assms(2), of "map (allocAttribute mv) ?as" "[]"]
      by (simp add: map2_alloc allocAttribute_def comp_def)
    show ?thesis
    proof (cases "index (geometry s)")
      case None
      then show ?thesis
        using assms(1) ok copy
        by (simp add: setGeometrySize_def initializeGeometry_def emptyGeometry_def)
    next
      case (Some ix)
      from newTypedArray_cases [of mi] show ?thesis
      proof
        assume "newTypedArray mi = Inr (nat \<lfloor>mi\<rfloor>)"
        with Some show ?thesis
          using assms(1) ok copy
          by (simp add: setGeometrySize_def initializeGeometry_def emptyGeometry_def growIndex_def)
      next
        assume "newTypedArray mi = Inl RangeError"
        with Some show ?thesis
          using assms(1) ok
          by (simp add: setGeometrySize_def initializeGeometry_def emptyGeometry_def)
      qed
    qed
  qed
qed

lemma resizeSpaceIfNeeded_schema:
  assumes "geometryInitialized s" and "distinct (map fst (attributes (geometry s)))"
    and "resizeSpaceIfNeeded s g = (r, s2)"
  shows "r = None \<or> r = Some RangeError"
    and "r = None \<Longrightarrow>
           attributeSchema (attributes (geometry s2)) = attributeSchema (attributes (geometry s)) \<and>
           (index (geometry s2) \<noteq> None) = (index (geometry s) \<noteq> None)"
proof -
  let ?nv = "newMaxVertexCount s g" and ?ni = "newMaxIndexCount s g"
  have both: "(r = None \<or> r = Some RangeError) \<and>
        (r = None \<longrightarrow>
           attributeSchema (attributes (geometry s2)) = attributeSchema (attributes (geometry s)) \<and>
           (index (geometry s2) \<noteq> None) = (index (geometry s) \<noteq> None))"
  proof (cases "maxIndexCount s < ?ni \<or> maxVertexCount s < ?nv")
    case False
    with assms(3) show ?thesis by (auto simp: resizeSpaceIfNeeded_def)
  next
    case True
    with assms(3) have eq: "setGeometrySize s ?nv ?ni = (r, s2)"
      by (simp add: resizeSpaceIfNeeded_def)
    from setGeometrySize_cases [OF assms(1,2), of ?nv ?ni] show ?thesis
    proof
      assume "setGeometrySize s ?nv ?ni =
         (None, s\<lparr>maxVertexCount := ?nv, maxIndexCount := ?ni,
                  geometry := emptyGeometry\<lparr>
                    attributes := map (growAttribute ?nv) (attributes (geometry s)),
                    index := map_option (growIndex ?nv ?ni) (index (geometry s))\<rparr>\<rparr>)"
      with eq have r: "r = None"
        and s2: "s2 = s\<lparr>maxVertexCount := ?nv, maxIndexCount := ?ni,
                  geometry := emptyGeometry\<lparr>
                    attributes := map (growAttribute ?nv) (attributes (geometry s)),
                    index := map_option (growIndex ?nv ?ni) (index (geometry s))\<rparr>\<rparr>"
        by simp_all
      show ?thesis
        by (cases "index (geometry s)") (simp_all add: r s2)
    next
      assume "\<exists>s2. setGeometrySize s ?nv ?ni = (Some RangeError, s2)"
      with eq show ?thesis by auto
    qed
  qed
  from both show "r = None \<or> r = Some RangeError" by blast
  from both show "r = None \<Longrightarrow>
           attributeSchema (attributes (geometry s2)) = attributeSchema (attributes (geometry s)) \<and>
           (index (geometry s2) \<noteq> None) = (index (geometry s) \<noteq> None)" by blast
qed

lemma newGeometryInfo_error:
  "newGeometryInfo s g rv ri = Inl e \<Longrightarrow> e = TypeError \<or> e = ReservedExceedsMaximum"
  by (auto simp: newGeometryInfo_def Let_def split: option.splits if_splits)

lemma geometry_allocateGeometryId [simp]:
  "geometry (snd (allocateGeometryId s info)) = geometry s"
  by (simp add: allocateGeometryId_def setInfoAt_def split: list.splits)

lemma setGeometryAt_error:
  assumes "validateGeometry s g = None" and "setGeometryAt s h g = (Inl e, s')"
  shows "e = MaximumGeometryCount \<or> e = TypeError \<or> e = ReservedNotLargeEnough"
  using assms by (auto simp: setGeometryAt_def split: if_splits option.splits)

lemma addGeometry_steps:
  assumes "geometryInitialized s"
  shows "validateGeometry s g = Some e \<Longrightarrow> addGeometry s g rv ri = (Inl e, s)"
    and "validateGeometry s g = None \<Longrightarrow> resizeSpaceIfNeeded s (ensureBounds g) = (Some e, s2) \<Longrightarrow>
         addGeometry s g rv ri = (Inl e, s2)"
    and "validateGeometry s g = None \<Longrightarrow> resizeSpaceIfNeeded s (ensureBounds g) = (None, s2) \<Longrightarrow>
         newGeometryInfo s2 (ensureBounds g) rv ri = Inl e \<Longrightarrow>
         addGeometry s g rv ri = (Inl e, s2)"
    and "validateGeometry s g = None \<Longrightarrow> resizeSpaceIfNeeded s (ensureBounds g) = (None, s2) \<Longrightarrow>
         newGeometryInfo s2 (ensureBounds g) rv ri = Inr info \<Longrightarrow>
         allocateGeometryId s2 info = (h, s3) \<Longrightarrow>
         setGeometryAt s3 h (ensureBounds g) = (Inl e, s4) \<Longrightarrow>
         addGeometry s g rv ri = (Inl e, s4)"
    and "validateGeometry s g = None \<Longrightarrow> resizeSpaceIfNeeded s (ensureBounds g) = (None, s2) \<Longrightarrow>
         newGeometryInfo s2 (ensureBounds g) rv ri = Inr info \<Longrightarrow>
         allocateGeometryId s2 info = (h, s3) \<Longrightarrow>
         setGeometryAt s3 h (ensureBounds g) = (Inr x, s4) \<Longrightarrow>
         addGeometry s g rv ri =
           (Inr h, s4\<lparr>nextIndexStart := indexStart info + reservedIndexCount info,
                      nextVertexStart := vertexStart info + reservedVertexCount info\<rparr>)"
  using assms by (simp_all add: addGeometry_def initializeGeometry_def Let_def)

lemma addGeometry_no_schema_error:
  assumes init: "geometryInitialized s" and dist: "distinct (map fst (attributes (geometry s)))"
    and v: "validateGeometry s g = None" and run: "addGeometry s g rv ri = (Inl e, s')"
  shows "\<not> schemaError e"
proof -
  let ?g = "ensureBounds g"
  obtain r s2 where resize: "resizeSpaceIfNeeded s ?g = (r, s2)" by force
  note rs = resizeSpaceIfNeeded_schema [OF init dist resize]
  have start: "addGeometry s g rv ri =
      (case resizeSpaceIfNeeded s ?g of
         (Some e, s2) \<Rightarrow> (Inl e, s2)
       | (None, s2) \<Rightarrow>
           (case newGeometryInfo s2 ?g rv ri of
              Inl e \<Rightarrow> (Inl e, s2)
            | Inr info \<Rightarrow>
                (case allocateGeometryId s2 info of
                   (geometryId, s3) \<Rightarrow>
                     (case setGeometryAt s3 geometryId ?g of
                        (Inl e, s4) \<Rightarrow> (Inl e, s4)
                      | (Inr _, s4) \<Rightarrow>
                          (Inr geometryId,
                           s4\<lparr>nextIndexStart := indexStart info + reservedIndexCount info,
                              nextVertexStart := vertexStart info + reservedVertexCount info\<rparr>)))))"
    using init v by (simp add: addGeometry_def initializeGeometry_def Let_def)
  from rs(1) show ?thesis
  proof
    assume "r = Some RangeError"
    with run resize start have "e = RangeError" by simp
    then show ?thesis by simp
  next
    assume r: "r = None"
    note schema = rs(2) [OF r]
    show ?thesis
    proof (cases "newGeometryInfo s2 ?g rv ri")
      case (Inl e3)
      with run resize start r have "e = e3" by simp
      with newGeometryInfo_error [OF Inl] show ?thesis by auto
    next
      case (Inr info)
      obtain h s3 where alloc: "allocateGeometryId s2 info = (h, s3)" by force
      have g3: "geometry s3 = geometry s2"
        using geometry_allocateGeometryId [of s2 info] by (simp add: alloc)
      have "validateGeometry s3 ?g = validateGeometry s ?g"
        by (rule validateGeometry_schema) (simp_all only: g3 schema)
      also have "\<dots> = validateGeometry s g"
        by (rule validateGeometry_payload) simp_all
      finally have v3: "validateGeometry s3 ?g = None" using v by simp
      obtain x s4 where set: "setGeometryAt s3 h ?g = (x, s4)" by force
      show ?thesis
      proof (cases x)
        case (Inl e4)
        with run resize start r Inr alloc set have "e = e4" by simp
        with setGeometryAt_error [OF v3 set [unfolded Inl]] show ?thesis by auto
      next
        case (Inr h')
        with run resize start r \<open>newGeometryInfo s2 ?g rv ri = Inr info\<close> alloc set
        show ?thesis by simp
      qed
    qed
  qed
qed


text \<open>What \<^verbatim>\<open>addGeometry\<close> reads of a payload.\<close>

lemma setAttribute_names: "fst ` set (setAttribute n a acc) = insert n (fst ` set acc)"
proof (induction acc)
  case Nil
  then show ?case by simp
next
  case (Cons mb acc)
  obtain m b where "mb = (m, b)" by (cases mb)
  with Cons show ?case by (cases "m = n") auto
qed

lemma initAttributes_names:
  "fst ` set (snd (initAttributes mv as acc)) \<subseteq> fst ` set acc \<union> fst ` set as"
proof (induction as arbitrary: acc)
  case Nil
  then show ?case by simp
next
  case (Cons na as)
  obtain n a where na: "na = (n, a)" by (cases na)
  show ?case
  proof (cases "newTypedArray (mv * of_nat (itemSize a))")
    case (Inl e)
    then show ?thesis by (auto simp: na)
  next
    case (Inr len)
    let ?acc = "setAttribute n \<lparr>itemSize = itemSize a, normalized = normalized a,
                  array = replicate len 0\<rparr> acc"
    from Cons.IH [of ?acc] show ?thesis
      by (auto simp: na Inr setAttribute_names)
  qed
qed

lemma copyOldAttributes_names: "fst ` set (copyOldAttributes old new) = fst ` set new"
proof (induction old arbitrary: new)
  case Nil
  then show ?case by simp
next
  case (Cons oa old)
  obtain n o' where oa: "oa = (n, o')" by (cases oa)
  show ?case
  proof (cases "map_of new n")
    case None
    then show ?thesis by (simp add: oa Cons.IH)
  next
    case (Some a)
    from map_of_SomeD [OF Some] have "n \<in> fst ` set new" by force
    then show ?thesis
      by (auto simp: oa Some Cons.IH setAttribute_names)
  qed
qed

lemma setGeometrySize_names:
  "fst ` set (attributes (geometry (snd (setGeometrySize s mv mi)))) \<subseteq>
   fst ` set (attributes (geometry s))"
proof (cases "geometryInitialized s")
  case False
  then show ?thesis by (simp add: setGeometrySize_def)
next
  case True
  obtain e as' where ia: "initAttributes mv (attributes (geometry s)) [] = (e, as')" by force
  from initAttributes_names [of mv "attributes (geometry s)" "[]"]
  have names: "fst ` set as' \<subseteq> fst ` set (attributes (geometry s))" by (simp add: ia)
  show ?thesis
  proof (cases e)
    case (Some err)
    with True ia names show ?thesis
      by (simp add: setGeometrySize_def initializeGeometry_def emptyGeometry_def)
  next
    case None
    show ?thesis
    proof (cases "index (geometry s)")
      case ixNone: None
      with True ia names None show ?thesis
        by (simp add: setGeometrySize_def initializeGeometry_def emptyGeometry_def
              copyOldAttributes_names)
    next
      case (Some ix)
      with True ia names None show ?thesis
        by (cases "newTypedArray mi")
           (simp_all add: setGeometrySize_def initializeGeometry_def emptyGeometry_def
              copyOldAttributes_names)
    qed
  qed
qed

lemma resizeSpaceIfNeeded_names:
  "fst ` set (attributes (geometry (snd (resizeSpaceIfNeeded s g)))) \<subseteq>
   fst ` set (attributes (geometry s))"
  using setGeometrySize_names [of s "newMaxVertexCount s g" "newMaxIndexCount s g"]
  by (simp add: resizeSpaceIfNeeded_def)

lemma validateAttributes_cong:
  "(\<And>n. n \<in> fst ` set as \<Longrightarrow> getAttribute g' n = getAttribute g n) \<Longrightarrow>
   validateAttributes as g' = validateAttributes as g"
proof (induction as)
  case Nil
  then show ?case by simp
next
  case (Cons na as)
  obtain n a where na: "na = (n, a)" by (cases na)
  have "getAttribute g' n = getAttribute g n" using Cons.prems na by simp
  moreover have "validateAttributes as g' = validateAttributes as g"
    using Cons.prems by (intro Cons.IH) simp
  ultimately show ?case by (auto simp: na split: option.splits)
qed

lemma writeAttribute_cong:
  "(\<And>n. n \<in> fst ` set as \<Longrightarrow> getAttribute g' n = getAttribute g n) \<Longrightarrow>
   map (writeAttribute g' vs rv) as = map (writeAttribute g vs rv) as"
  by (rule map_cong [OF refl]) (simp add: writeAttribute_def)

lemma getAttribute_bounds [simp]:
  "getAttribute (g\<lparr>geomBoundingBox := b\<rparr>) n = getAttribute g n"
  by (simp add: getAttribute_def)

lemma positionsOf_bounds [simp]: "positionsOf (g\<lparr>geomBoundingBox := b\<rparr>) = positionsOf g"
  by (simp add: positionsOf_def)

lemma computeBoundingBox_bounds [simp]:
  "computeBoundingBox (g\<lparr>geomBoundingBox := b\<rparr>) = computeBoundingBox g"
  by (simp add: computeBoundingBox_def)

lemma computeBoundingSphere_bounds [simp]:
  "computeBoundingSphere (g\<lparr>geomBoundingBox := b\<rparr>) = computeBoundingSphere g"
  unfolding computeBoundingSphere_def getAttribute_bounds positionsOf_bounds
    computeBoundingBox_bounds ..

lemma ensureBounds_cong:
  assumes "getAttribute g' ''position'' = getAttribute g ''position''"
    and "geomBoundingBox g' = geomBoundingBox g" and "geomBoundingSphere g' = geomBoundingSphere g"
  shows "geomBoundingBox (ensureBounds g') = geomBoundingBox (ensureBounds g)"
    and "geomBoundingSphere (ensureBounds g') = geomBoundingSphere (ensureBounds g)"
proof -
  have pts: "positionsOf g' = positionsOf g"
    unfolding positionsOf_def assms(1) ..
  have box: "computeBoundingBox g' = computeBoundingBox g"
    unfolding computeBoundingBox_def pts ..
  have sph: "computeBoundingSphere g' = computeBoundingSphere g"
    unfolding computeBoundingSphere_def assms(1) pts box ..
  show "geomBoundingBox (ensureBounds g') = geomBoundingBox (ensureBounds g)"
    using assms(2,3) by (simp add: ensureBounds_def Let_def box)
  show "geomBoundingSphere (ensureBounds g') = geomBoundingSphere (ensureBounds g)"
    using assms(2,3) by (simp add: ensureBounds_def Let_def box sph)
qed

lemma setGeometryAt_cong:
  assumes "index g' = index g" and "geomBoundingBox g' = geomBoundingBox g"
    and "geomBoundingSphere g' = geomBoundingSphere g"
    and "getAttribute g' ''position'' = getAttribute g ''position''"
    and att: "\<And>n. n \<in> fst ` set (attributes (geometry s)) \<Longrightarrow> getAttribute g' n = getAttribute g n"
  shows "setGeometryAt s h g' = setGeometryAt s h g"
proof -
  have vc: "validateAttributes (attributes (geometry s)) g' =
            validateAttributes (attributes (geometry s)) g"
    by (rule validateAttributes_cong [OF att])
  have v: "validateGeometry s g' = validateGeometry s g"
    unfolding validateGeometry_def assms(1) vc ..
  have w: "map (writeAttribute g' vs rv) (attributes (geometry s)) =
           map (writeAttribute g vs rv) (attributes (geometry s))" for vs rv
    by (rule writeAttribute_cong [OF att])
  have st: "storeGeometry s h info g' p = storeGeometry s h info g p" for info p
    by (simp add: storeGeometry_def Let_def w assms(1,2,3))
  have ic: "indexCountOf g' = indexCountOf g"
    by (simp add: indexCountOf_def assms(1))
  show ?thesis
    unfolding setGeometryAt_def v st ic assms(4) ..
qed

lemma addGeometry_cong:
  assumes init: "geometryInitialized s"
    and ix: "index g' = index g" and bb: "geomBoundingBox g' = geomBoundingBox g"
    and bs: "geomBoundingSphere g' = geomBoundingSphere g"
    and pos: "getAttribute g' ''position'' = getAttribute g ''position''"
    and att: "\<And>n. n \<in> fst ` set (attributes (geometry s)) \<Longrightarrow> getAttribute g' n = getAttribute g n"
  shows "addGeometry s g' rv ri = addGeometry s g rv ri"
proof -
  let ?e = "ensureBounds g" and ?e' = "ensureBounds g'"
  have vc: "validateAttributes (attributes (geometry s)) g' =
            validateAttributes (attributes (geometry s)) g"
    by (rule validateAttributes_cong [OF att])
  have v: "validateGeometry s g' = validateGeometry s g"
    unfolding validateGeometry_def ix vc ..
  note eb = ensureBounds_cong [OF pos bb bs]
  have e_ix: "index ?e' = index ?e" by (simp add: ix)
  have e_pos: "getAttribute ?e' ''position'' = getAttribute ?e ''position''" by (simp add: pos)
  have e_ic: "indexCountOf ?e' = indexCountOf ?e" by (simp add: indexCountOf_def ix)
  have ni: "newMaxIndexCount s ?e' = newMaxIndexCount s ?e"
    unfolding newMaxIndexCount_def e_ix e_ic ..
  have nv: "newMaxVertexCount s ?e' = newMaxVertexCount s ?e"
    unfolding newMaxVertexCount_def e_pos ..
  have resize: "resizeSpaceIfNeeded s ?e' = resizeSpaceIfNeeded s ?e"
    unfolding resizeSpaceIfNeeded_def ni nv ..
  have info: "newGeometryInfo s2 ?e' rv ri = newGeometryInfo s2 ?e rv ri" for s2
    unfolding newGeometryInfo_def eb e_ix e_pos e_ic ..
  have store: "setGeometryAt (snd (allocateGeometryId (snd (resizeSpaceIfNeeded s ?e)) i)) h ?e' =
               setGeometryAt (snd (allocateGeometryId (snd (resizeSpaceIfNeeded s ?e)) i)) h ?e"
    for i h
  proof (rule setGeometryAt_cong)
    fix n
    assume "n \<in> fst ` set (attributes (geometry (snd (allocateGeometryId
               (snd (resizeSpaceIfNeeded s ?e)) i))))"
    with resizeSpaceIfNeeded_names [of s ?e]
    have "n \<in> fst ` set (attributes (geometry s))" by auto
    from att [OF this] show "getAttribute ?e' n = getAttribute ?e n" by simp
  qed (simp_all add: ix eb pos)
  note step = addGeometry_steps [OF init]
  show ?thesis
  proof (cases "validateGeometry s g")
    case (Some err)
    from step(1) [OF Some] step(1) [OF Some [folded v]] show ?thesis by simp
  next
    case None
    note v1 = None and v2 = None [folded v]
    obtain r s2 where rs: "resizeSpaceIfNeeded s ?e = (r, s2)" by force
    note rs' = rs [folded resize]
    show ?thesis
    proof (cases r)
      case (Some err)
      from step(2) [OF v1 rs [unfolded Some]] step(2) [OF v2 rs' [unfolded Some]]
      show ?thesis by simp
    next
      case rNone: None
      show ?thesis
      proof (cases "newGeometryInfo s2 ?e rv ri")
        case (Inl err)
        from step(3) [OF v1 rs [unfolded rNone] Inl]
          step(3) [OF v2 rs' [unfolded rNone] Inl [folded info]]
        show ?thesis by simp
      next
        case (Inr i)
        obtain h s3 where alloc: "allocateGeometryId s2 i = (h, s3)" by force
        from store [of i h] have eq: "setGeometryAt s3 h ?e' = setGeometryAt s3 h ?e"
          by (simp add: rs alloc)
        obtain x s4 where set: "setGeometryAt s3 h ?e = (x, s4)" by force
        note set' = set [folded eq]
        show ?thesis
        proof (cases x)
          case (Inl err)
          from step(4) [OF v1 rs [unfolded rNone] Inr alloc set [unfolded Inl]]
            step(4) [OF v2 rs' [unfolded rNone] Inr [folded info] alloc set' [unfolded Inl]]
          show ?thesis by simp
        next
          case xInr: (Inr y)
          from step(5) [OF v1 rs [unfolded rNone] Inr alloc set [unfolded xInr]]
            step(5) [OF v2 rs' [unfolded rNone] Inr [folded info] alloc set' [unfolded xInr]]
          show ?thesis by simp
        qed
      qed
    qed
  qed
qed

lemma addGeometry_extra:
  assumes init: "geometryInitialized s" and m: "matchesSchema s g"
    and p: "getAttribute g ''position'' \<noteq> None"
  shows "addGeometry s (g\<lparr>attributes := attributes g @ extra\<rparr>) rv ri = addGeometry s g rv ri"
proof (rule addGeometry_cong [OF init])
  let ?g = "g\<lparr>attributes := attributes g @ extra\<rparr>"
  from p obtain a where "getAttribute g ''position'' = Some a" by blast
  from getAttribute_extra [OF this, of extra] this
  show "getAttribute ?g ''position'' = getAttribute g ''position''" by simp
  fix n
  assume "n \<in> fst ` set (attributes (geometry s))"
  then obtain b where "(n, b) \<in> set (attributes (geometry s))" by auto
  with m have "getAttribute g n \<noteq> None"
    unfolding matchesSchema_def list_all_iff by (auto split: option.splits)
  then obtain a where a: "getAttribute g n = Some a" by blast
  from getAttribute_extra [OF a, of extra] a show "getAttribute ?g n = getAttribute g n" by simp
qed simp_all



subsection \<open>addGeometry on a consistent batch\<close>

lemma consistentD:
  assumes "consistent s"
  shows "geometryInitialized s"
    and "geometryCount s = int (length (geometryInfo s))"
    and "distinct (map fst (attributes (geometry s)))"
    and "getAttribute (geometry s) ''position'' \<noteq> None"
    and "\<forall>h \<in> set (availableGeometryIds s). 0 \<le> h \<and> h < int (length (geometryInfo s))"
    and "0 \<le> nextVertexStart s"
    and "of_int (nextVertexStart s) \<le> maxVertexCount s"
    and "\<And>na. na \<in> set (attributes (geometry s)) \<Longrightarrow>
           length (array (snd na)) = nat \<lfloor>maxVertexCount s * of_nat (itemSize (snd na))\<rfloor>"
    and "\<And>r. r \<in> set (geometryInfo s) \<Longrightarrow> active r \<Longrightarrow>
           0 \<le> vertexStart r \<and> 0 \<le> vertexCount r \<and>
           vertexStart r + vertexCount r \<le> nextVertexStart s"
    and "distinct (availableGeometryIds s)"
    and "\<And>h. h \<in> set (availableGeometryIds s) \<Longrightarrow> \<not> active (geometryInfo s ! nat h)"
  using assms unfolding consistent_def by blast+

lemma consistent_indexD:
  assumes "consistent s" and "index (geometry s) = Some (k, arr)"
  shows "0 \<le> nextIndexStart s"
    and "of_int (nextIndexStart s) \<le> maxIndexCount s"
    and "k = (if 65535 < maxVertexCount s then U32 else U16)"
    and "length arr = nat \<lfloor>maxIndexCount s\<rfloor>"
    and "\<And>v. v \<in> set arr \<Longrightarrow> wrapIndex k v = v"
    and "\<And>r. r \<in> set (geometryInfo s) \<Longrightarrow> active r \<Longrightarrow>
           0 \<le> indexStart r \<and> 0 \<le> indexCount r \<and>
           indexStart r + indexCount r \<le> nextIndexStart s"
proof -
  from assms have
    "0 \<le> nextIndexStart s \<and> of_int (nextIndexStart s) \<le> maxIndexCount s \<and>
     k = (if 65535 < maxVertexCount s then U32 else U16) \<and>
     length arr = nat \<lfloor>maxIndexCount s\<rfloor> \<and>
     (\<forall>v \<in> set arr. wrapIndex k v = v) \<and>
     (\<forall>r \<in> set (geometryInfo s). active r \<longrightarrow>
        0 \<le> indexStart r \<and> 0 \<le> indexCount r \<and>
        indexStart r + indexCount r \<le> nextIndexStart s)"
    unfolding consistent_def by (simp only: option.case prod.case) blast
  then show "0 \<le> nextIndexStart s"
    and "of_int (nextIndexStart s) \<le> maxIndexCount s"
    and "k = (if 65535 < maxVertexCount s then U32 else U16)"
    and "length arr = nat \<lfloor>maxIndexCount s\<rfloor>"
    and "\<And>v. v \<in> set arr \<Longrightarrow> wrapIndex k v = v"
    and "\<And>r. r \<in> set (geometryInfo s) \<Longrightarrow> active r \<Longrightarrow>
           0 \<le> indexStart r \<and> 0 \<le> indexCount r \<and>
           indexStart r + indexCount r \<le> nextIndexStart s"
    by blast+
qed

lemma validate_position:
  assumes "consistent s" and "validateGeometry s g = None"
  shows "\<exists>p. getAttribute g ''position'' = Some p"
proof -
  from assms(2) have "validateAttributes (attributes (geometry s)) g = None"
    by (simp add: validateGeometry_def split: if_splits)
  moreover from consistentD(4) [OF assms(1)]
  have "''position'' \<in> fst ` set (attributes (geometry s))"
    by (simp add: getAttribute_def map_of_eq_None_iff)
  ultimately show ?thesis
    using validateAttributes_present by blast
qed

lemma validate_index:
  "validateGeometry s g = None \<Longrightarrow> (index g = None) = (index (geometry s) = None)"
  by (auto simp: validateGeometry_def split: if_splits)

lemma attr_count_nonneg [simp]: "0 \<le> attr_count a"
  by (simp add: attr_count_def)

lemma indexCountOf_nonneg [simp]: "0 \<le> indexCountOf g"
  by (simp add: indexCountOf_def split: option.splits)

lemma newMaxVertexCount_bounds:
  assumes "0 \<le> nextVertexStart s" and "of_int (nextVertexStart s) \<le> maxVertexCount s"
    and "getAttribute g ''position'' = Some p"
  shows "maxVertexCount s \<le> newMaxVertexCount s g"
    and "of_int (nextVertexStart s + attr_count p) \<le> newMaxVertexCount s g"
proof -
  have n: "(0::rat) \<le> of_int (attr_count p)" by simp
  have m: "0 \<le> maxVertexCount s"
    using assms(1,2) by (meson of_int_0_le_iff order_trans)
  show "maxVertexCount s \<le> newMaxVertexCount s g"
    using assms(3) n m by (simp add: newMaxVertexCount_def)
  show "of_int (nextVertexStart s + attr_count p) \<le> newMaxVertexCount s g"
    using assms(2,3) n m by (simp add: newMaxVertexCount_def unusedVertexCount_def)
qed

lemma newMaxIndexCount_bounds:
  assumes "0 \<le> nextIndexStart s" and "of_int (nextIndexStart s) \<le> maxIndexCount s"
    and "index g \<noteq> None"
  shows "maxIndexCount s \<le> newMaxIndexCount s g"
    and "of_int (nextIndexStart s + indexCountOf g) \<le> newMaxIndexCount s g"
proof -
  have n: "(0::rat) \<le> of_int (indexCountOf g)" by simp
  have m: "0 \<le> maxIndexCount s"
    using assms(1,2) by (meson of_int_0_le_iff order_trans)
  show "maxIndexCount s \<le> newMaxIndexCount s g"
    using assms(3) n m by (auto simp: newMaxIndexCount_def)
  show "of_int (nextIndexStart s + indexCountOf g) \<le> newMaxIndexCount s g"
    using assms(2,3) n m by (auto simp: newMaxIndexCount_def unusedIndexCount_def)
qed

lemma newMaxIndexCount_none: "index g = None \<Longrightarrow> newMaxIndexCount s g = maxIndexCount s"
  by (simp add: newMaxIndexCount_def)

lemma resizeSpaceIfNeeded_consistent:
  assumes c: "consistent s" and v: "validateGeometry s g = None"
  shows "\<exists>G. resizeSpaceIfNeeded s g =
           (None, s\<lparr>maxVertexCount := newMaxVertexCount s g,
                    maxIndexCount := newMaxIndexCount s g, geometry := G\<rparr>) \<and>
         attributes G = map (growAttribute (newMaxVertexCount s g)) (attributes (geometry s)) \<and>
         index G = map_option (growIndex (newMaxVertexCount s g) (newMaxIndexCount s g))
                     (index (geometry s))"
proof -
  let ?nv = "newMaxVertexCount s g" and ?ni = "newMaxIndexCount s g"
  from validate_position [OF c v] obtain p where p: "getAttribute g ''position'' = Some p" ..
  note vb = newMaxVertexCount_bounds [OF consistentD(6,7) [OF c] p]
  have mv0: "0 \<le> maxVertexCount s"
    using consistentD(6,7) [OF c] by (meson of_int_0_le_iff order_trans)
  have nv0: "0 \<le> ?nv" using vb(1) mv0 by simp
  have ib: "maxIndexCount s \<le> ?ni" and ni0: "index (geometry s) \<noteq> None \<longrightarrow> 0 \<le> ?ni"
  proof -
    show "maxIndexCount s \<le> ?ni"
    proof (cases "index g")
      case None
      then show ?thesis by (simp add: newMaxIndexCount_none)
    next
      case (Some ix)
      with validate_index [OF v] obtain k arr where "index (geometry s) = Some (k, arr)" by auto
      from consistent_indexD(1,2) [OF c this] Some show ?thesis
        by (intro newMaxIndexCount_bounds(1)) auto
    qed
    show "index (geometry s) \<noteq> None \<longrightarrow> 0 \<le> ?ni"
    proof
      assume "index (geometry s) \<noteq> None"
      then obtain k arr where "index (geometry s) = Some (k, arr)" by auto
      from consistent_indexD(1,2) [OF c this] have "0 \<le> maxIndexCount s"
        by (meson of_int_0_le_iff order_trans)
      with \<open>maxIndexCount s \<le> ?ni\<close> show "0 \<le> ?ni" by simp
    qed
  qed
  show ?thesis
  proof (cases "maxIndexCount s < ?ni \<or> maxVertexCount s < ?nv")
    case True
    have "setGeometrySize s ?nv ?ni =
          (None, s\<lparr>maxVertexCount := ?nv, maxIndexCount := ?ni,
                   geometry := emptyGeometry\<lparr>
                     attributes := map (growAttribute ?nv) (attributes (geometry s)),
                     index := map_option (growIndex ?nv ?ni) (index (geometry s))\<rparr>\<rparr>)"
      by (rule setGeometrySize_grown [OF consistentD(1,3) [OF c] nv0 ni0])
    with True show ?thesis
      by (intro exI [of _ "emptyGeometry\<lparr>
                     attributes := map (growAttribute ?nv) (attributes (geometry s)),
                     index := map_option (growIndex ?nv ?ni) (index (geometry s))\<rparr>"])
         (simp add: resizeSpaceIfNeeded_def)
  next
    case False
    with vb(1) ib have same: "?nv = maxVertexCount s" "?ni = maxIndexCount s" by auto
    have attrs: "map (growAttribute ?nv) (attributes (geometry s)) = attributes (geometry s)"
      using consistentD(8) [OF c] by (intro map_idI growAttribute_same) (simp add: same)
    have ix: "map_option (growIndex ?nv ?ni) (index (geometry s)) = index (geometry s)"
    proof (cases "index (geometry s)")
      case None
      then show ?thesis by simp
    next
      case (Some ka)
      obtain k arr where ka: "ka = (k, arr)" by (cases ka)
      note i = consistent_indexD [OF c Some [unfolded ka]]
      have "growIndex ?nv ?ni (k, arr) =
            (if 65535 < ?nv then U32 else U16, arr @ replicate (nat \<lfloor>?ni\<rfloor> - length arr) 0)"
        using i(3,4,5) by (intro growIndex_array) (auto simp: same split: if_splits)
      with i(3,4) show ?thesis by (simp add: Some ka same)
    qed
    have "resizeSpaceIfNeeded s g = (None, s)"
      using False by (simp add: resizeSpaceIfNeeded_def)
    moreover have "s = s\<lparr>maxVertexCount := ?nv, maxIndexCount := ?ni, geometry := geometry s\<rparr>"
      by (simp add: same)
    ultimately show ?thesis
      using attrs ix by (intro exI [of _ "geometry s"]) simp
  qed
qed

lemma newMaxVertexCount_ensureBounds [simp]:
  "newMaxVertexCount s (ensureBounds g) = newMaxVertexCount s g"
  by (simp add: newMaxVertexCount_def)

lemma newMaxIndexCount_ensureBounds [simp]:
  "newMaxIndexCount s (ensureBounds g) = newMaxIndexCount s g"
  by (simp add: newMaxIndexCount_def split: option.splits)

lemma geomBounds_ensureBounds [simp]:
  "geomBoundingBox (ensureBounds (ensureBounds g)) = geomBoundingBox (ensureBounds g)"
  "geomBoundingSphere (ensureBounds (ensureBounds g)) = geomBoundingSphere (ensureBounds g)"
  by (simp_all add: ensureBounds_def Let_def)

lemma nextHandle_cong:
  "availableGeometryIds s' = availableGeometryIds s \<Longrightarrow> geometryCount s' = geometryCount s \<Longrightarrow>
   nextHandle s' = nextHandle s"
  by (simp add: nextHandle_def split: list.splits)

lemma placeInfo_cong:
  "availableGeometryIds s' = availableGeometryIds s \<Longrightarrow> geometryCount s' = geometryCount s \<Longrightarrow>
   geometryInfo s' = geometryInfo s \<Longrightarrow> placeInfo s' info = placeInfo s info"
  by (simp add: placeInfo_def nextHandle_cong [of s' s])

lemma growIndex_meta [simp]:
  "fst (growIndex mv mi ix) = (if 65535 < mv then U32 else U16)"
  "length (snd (growIndex mv mi ix)) = nat \<lfloor>mi\<rfloor>"
  by (simp_all add: growIndex_def copyIndexContents_def copyArrayContents_def)

lemma wrapIndex_zero [simp]: "wrapIndex k 0 = 0"
  by (cases k) (simp_all add: wrapIndex_def)

lemma growIndex_wrapped:
  assumes "v \<in> set (snd (growIndex mv mi ix))"
  shows "wrapIndex (if 65535 < mv then U32 else U16) v = v"
proof -
  let ?k = "if 65535 < mv then U32 else U16"
  from assms have "v \<in> set (replicate (nat \<lfloor>mi\<rfloor>) 0) \<union>
                     set (take (nat \<lfloor>mi\<rfloor>) (map (wrapIndex ?k) (snd ix)))"
    using set_paste [of "replicate (nat \<lfloor>mi\<rfloor>) 0" 0
                        "take (nat \<lfloor>mi\<rfloor>) (map (wrapIndex ?k) (snd ix))"]
    by (auto simp: growIndex_def copyIndexContents_def copyArrayContents_def)
  then have "v = 0 \<or> v \<in> wrapIndex ?k ` set (snd ix)"
    by (auto dest: in_set_takeD)
  then show ?thesis by auto
qed

lemma floor_bound:
  assumes "of_int a \<le> (m::rat)" and "0 \<le> a"
  shows "nat a * n \<le> nat \<lfloor>m * of_nat n\<rfloor>"
proof -
  have "of_int (a * int n) \<le> m * of_nat n"
    using assms(1) by (simp add: mult_right_mono)
  then have "a * int n \<le> \<lfloor>m * of_nat n\<rfloor>" by (simp add: le_floor_iff)
  moreover have "int (nat a * n) = a * int n" using assms(2) by simp
  ultimately show ?thesis by linarith
qed

lemma addGeometry_keeps_data:
  assumes c: "consistent s" and p: "getAttribute g ''position'' = Some p"
    and attrs: "attributes G' =
       map (writeAttribute g' (nextVertexStart s) rv)
         (map (growAttribute (newMaxVertexCount s g)) (attributes (geometry s)))"
    and ix: "index G' =
       (case (index (geometry s), index g) of
          (Some ix, Some src) \<Rightarrow>
            Some (writeIndex (growIndex (newMaxVertexCount s g) (newMaxIndexCount s g) ix)
                    (snd src) (nextIndexStart s) (nextVertexStart s) rc)
        | _ \<Rightarrow> None)"
    and ixeq: "(index g = None) = (index (geometry s) = None)"
    and r: "r \<in> set (geometryInfo s)" "active r"
  shows "regionData G' r = regionData (geometry s) r"
proof -
  let ?nv = "newMaxVertexCount s g" and ?ni = "newMaxIndexCount s g"
  let ?next = "nextVertexStart s"
  note vb = newMaxVertexCount_bounds [OF consistentD(6,7) [OF c] p]
  note rb = consistentD(9) [OF c r]
  have vertex: "take (nat (vertexCount r) * itemSize (snd (writeAttribute g' ?next rv (growAttribute ?nv na))))
            (drop (nat (vertexStart r) * itemSize (snd (writeAttribute g' ?next rv (growAttribute ?nv na))))
               (array (snd (writeAttribute g' ?next rv (growAttribute ?nv na))))) =
          take (nat (vertexCount r) * itemSize (snd na))
            (drop (nat (vertexStart r) * itemSize (snd na)) (array (snd na)))"
    if na: "na \<in> set (attributes (geometry s))" for na
  proof -
    let ?isz = "itemSize (snd na)"
    let ?k = "nat ?next * ?isz"
    have len: "length (array (snd na)) = nat \<lfloor>maxVertexCount s * of_nat ?isz\<rfloor>"
      by (rule consistentD(8) [OF c na])
    have klen: "?k \<le> length (array (snd na))"
      unfolding len by (rule floor_bound [OF consistentD(7,6) [OF c]])
    have grow: "length (array (snd na)) \<le> nat \<lfloor>?nv * of_nat ?isz\<rfloor>"
      unfolding len using vb(1) by (intro nat_mono floor_mono mult_right_mono) simp_all
    have "take ?k (array (snd (writeAttribute g' ?next rv (growAttribute ?nv na)))) =
          take ?k (array (snd (growAttribute ?nv na)))"
      by (rule writeAttribute_take [OF consistentD(6) [OF c]]) simp
    also have "\<dots> = take ?k (array (snd na))"
      using klen by (simp add: growAttribute_array [OF grow])
    finally have below: "take ?k (array (snd (writeAttribute g' ?next rv (growAttribute ?nv na)))) =
          take ?k (array (snd na))" .
    have "nat (vertexStart r) + nat (vertexCount r) \<le> nat ?next"
      using rb by linarith
    then have "(nat (vertexStart r) + nat (vertexCount r)) * ?isz \<le> ?k"
      by (rule mult_le_mono1)
    then have fit: "nat (vertexStart r) * ?isz + nat (vertexCount r) * ?isz \<le> ?k"
      by (simp add: add_mult_distrib)
    show ?thesis
      using slice_cong [OF below fit] by simp
  qed
  have indices: "(case index G' of None \<Rightarrow> []
                  | Some (k, arr) \<Rightarrow> take (nat (indexCount r)) (drop (nat (indexStart r)) arr)) =
                 (case index (geometry s) of None \<Rightarrow> []
                  | Some (k, arr) \<Rightarrow> take (nat (indexCount r)) (drop (nat (indexStart r)) arr))"
  proof (cases "index (geometry s)")
    case None
    then show ?thesis by (simp add: ix)
  next
    case (Some ka)
    obtain k arr where ka: "ka = (k, arr)" by (cases ka)
    from Some ixeq obtain src where src: "index g = Some src" by auto
    note i = consistent_indexD [OF c Some [unfolded ka]]
    let ?k = "nat (nextIndexStart s)"
    have G': "index G' = Some (writeIndex (growIndex ?nv ?ni (k, arr)) (snd src)
                                (nextIndexStart s) ?next rc)"
      by (simp add: ix Some ka src)
    have ib: "maxIndexCount s \<le> ?ni"
      using i(1,2) src by (intro newMaxIndexCount_bounds(1)) auto
    have grown: "growIndex ?nv ?ni (k, arr) =
            (if 65535 < ?nv then U32 else U16, arr @ replicate (nat \<lfloor>?ni\<rfloor> - length arr) 0)"
    proof (rule growIndex_array)
      show "\<forall>v\<in>set arr. wrapIndex k v = v" using i(5) by blast
      show "k = U32 \<longrightarrow> 65535 < ?nv" using i(3) vb(1) by (auto split: if_splits)
      show "length arr \<le> nat \<lfloor>?ni\<rfloor>" unfolding i(4) using ib by (intro nat_mono floor_mono)
    qed
    have klen: "?k \<le> length arr"
      unfolding i(4) using i(1,2) by (simp add: le_floor_iff nat_le_iff)
    have "take ?k (snd (writeIndex (growIndex ?nv ?ni (k, arr)) (snd src) (nextIndexStart s) ?next rc)) =
          take ?k (snd (growIndex ?nv ?ni (k, arr)))"
      by (rule writeIndex_take [OF i(1)]) simp
    also have "\<dots> = take ?k arr" using klen by (simp add: grown)
    finally have below: "take ?k (snd (writeIndex (growIndex ?nv ?ni (k, arr)) (snd src)
                                        (nextIndexStart s) ?next rc)) = take ?k arr" .
    have fit: "nat (indexStart r) + nat (indexCount r) \<le> ?k"
      using i(6) [OF r] by linarith
    show ?thesis
      using slice_cong [OF below fit] by (auto simp: G' Some ka split: prod.splits)
  qed
  show ?thesis
    using vertex indices by (simp add: regionData_def attrs)
qed

lemma addedRegion_simps [simp]:
  "vertexStart (addedRegion s g p) = nextVertexStart s"
  "vertexCount (addedRegion s g p) = attr_count p"
  "reservedVertexCount (addedRegion s g p) = attr_count p"
  "active (addedRegion s g p)"
  "visible (addedRegion s g p)"
  "index g \<noteq> None \<Longrightarrow> indexStart (addedRegion s g p) = nextIndexStart s"
  "index g \<noteq> None \<Longrightarrow> indexCount (addedRegion s g p) = indexCountOf g"
  by (auto simp: addedRegion_def)

subsection \<open>addGeometry with reservations\<close>

lemma reservedRegion_simps [simp]:
  "vertexStart (reservedRegion s g p rv ri) = nextVertexStart s"
  "vertexCount (reservedRegion s g p rv ri) = attr_count p"
  "reservedVertexCount (reservedRegion s g p rv ri) = vertexSpan p rv"
  "active (reservedRegion s g p rv ri)"
  "visible (reservedRegion s g p rv ri)"
  "index g \<noteq> None \<Longrightarrow> indexStart (reservedRegion s g p rv ri) = nextIndexStart s"
  "index g \<noteq> None \<Longrightarrow> indexCount (reservedRegion s g p rv ri) = indexCountOf g"
  "index g \<noteq> None \<Longrightarrow> reservedIndexCount (reservedRegion s g p rv ri) = indexSpan g ri"
  by (auto simp: reservedRegion_def addedRegion_def)

lemma reservedRegion_default: "reservedRegion s g p (-1) (-1) = addedRegion s g p"
  by (simp add: reservedRegion_def addedRegion_def vertexSpan_def indexSpan_def)

lemma addGeometry_reserved_eq:
  assumes c: "consistent s" and v: "validateGeometry s g = None"
    and p: "getAttribute g ''position'' = Some p"
    and fits: "\<not> exceedsCapacity s g p rv ri" and large: "\<not> tooSmall g p rv ri"
  shows "\<exists>s'. addGeometry s g rv ri = (Inr (nextHandle s), s') \<and>
     geometryInfo s' = placeInfo s (reservedRegion s g p rv ri) \<and>
     availableGeometryIds s' = tl (sort (availableGeometryIds s)) \<and>
     geometryCount s' = int (length (placeInfo s (reservedRegion s g p rv ri))) \<and>
     geometryInitialized s' \<and>
     nextVertexStart s' = nextVertexStart s + vertexSpan p rv \<and>
     nextIndexStart s' = (if index g = None then -2 else nextIndexStart s + indexSpan g ri) \<and>
     maxVertexCount s' = newMaxVertexCount s g \<and>
     maxIndexCount s' = newMaxIndexCount s g \<and>
     attributes (geometry s') =
       map (writeAttribute (ensureBounds g) (nextVertexStart s) (vertexSpan p rv))
         (map (growAttribute (newMaxVertexCount s g)) (attributes (geometry s))) \<and>
     index (geometry s') =
       (case (index (geometry s), index g) of
          (Some ix, Some src) \<Rightarrow>
            Some (writeIndex (growIndex (newMaxVertexCount s g) (newMaxIndexCount s g) ix)
                    (snd src) (nextIndexStart s) (nextVertexStart s) (indexSpan g ri))
        | _ \<Rightarrow> None)"
proof -
  let ?g = "ensureBounds g"
  let ?nv = "newMaxVertexCount s g" and ?ni = "newMaxIndexCount s g"
  let ?h = "nextHandle s"
  have v': "validateGeometry s ?g = None"
    using v by (simp add: validateGeometry_payload [of ?g g])
  from resizeSpaceIfNeeded_consistent [OF c v'] obtain G where
    resize: "resizeSpaceIfNeeded s ?g =
               (None, s\<lparr>maxVertexCount := ?nv, maxIndexCount := ?ni, geometry := G\<rparr>)"
    and GA: "attributes G = map (growAttribute ?nv) (attributes (geometry s))"
    and GI: "index G = map_option (growIndex ?nv ?ni) (index (geometry s))"
    by auto
  define s2 where "s2 = s\<lparr>maxVertexCount := ?nv, maxIndexCount := ?ni, geometry := G\<rparr>"
  have s2: "geometryInfo s2 = geometryInfo s" "availableGeometryIds s2 = availableGeometryIds s"
    "geometryCount s2 = geometryCount s" "nextVertexStart s2 = nextVertexStart s"
    "nextIndexStart s2 = nextIndexStart s" "maxVertexCount s2 = ?nv" "maxIndexCount s2 = ?ni"
    "geometry s2 = G" "geometryInitialized s2 = geometryInitialized s"
    by (simp_all add: s2_def)
  have ixeq: "(index g = None) = (index (geometry s) = None)" by (rule validate_index [OF v])
  have Gix: "(index G \<noteq> None) = (index (geometry s) \<noteq> None)"
    by (cases "index (geometry s)") (simp_all add: GI)
  have v2: "validateGeometry s2 ?g = None"
  proof -
    have "validateGeometry s2 ?g = validateGeometry s ?g"
    proof (rule validateGeometry_schema)
      show "attributeSchema (attributes (geometry s2)) = attributeSchema (attributes (geometry s))"
        by (simp add: s2 GA)
      show "(index (geometry s2) \<noteq> None) = (index (geometry s) \<noteq> None)"
        using Gix by (simp only: s2)
    qed
    with v' show ?thesis by simp
  qed
  define info where
    "info = (reservedRegion s g p rv ri)\<lparr>vertexCount := -1, indexCount := -1, start := -1,
              count := -1\<rparr>"
  have vfit: "\<not> ?nv < of_int (nextVertexStart s + vertexSpan p rv)"
    using fits by (simp add: exceedsCapacity_def)
  have newInfo: "newGeometryInfo s2 ?g rv ri = Inr info"
  proof (cases "index g")
    case None
    then show ?thesis
      using p vfit
      by (cases "rv = -1")
         (simp_all add: newGeometryInfo_def s2 info_def reservedRegion_def addedRegion_def Let_def
            vertexSpan_def)
  next
    case (Some src)
    with ixeq obtain k arr where "index (geometry s) = Some (k, arr)" by auto
    note i = consistent_indexD(1,2) [OF c this]
    from Some fits have ifit: "\<not> ?ni < of_int (nextIndexStart s + indexSpan g ri)"
      by (simp add: exceedsCapacity_def)
    from i(1) have "nextIndexStart s \<noteq> -1" by simp
    with Some show ?thesis
      using p vfit ifit
      by (cases "rv = -1"; cases "ri = -1")
         (simp_all add: newGeometryInfo_def s2 info_def reservedRegion_def addedRegion_def Let_def
            vertexSpan_def indexSpan_def)
  qed
  define s3 where
    "s3 = s2\<lparr>geometryCount := int (length (placeInfo s info)),
             geometryInfo := placeInfo s info,
             availableGeometryIds := tl (sort (availableGeometryIds s))\<rparr>"
  have alloc: "allocateGeometryId s2 info = (?h, s3)"
    using allocateGeometryId_eq [of s2 info] consistentD(2,5) [OF c]
    by (simp add: s2 s3_def nextHandle_cong [of s2 s] placeInfo_cong [of s2 s])
  note pl1 = placeInfo_at(1) [OF consistentD(2,5) [OF c], where info = info]
  note pl3 = placeInfo_at(3) [OF consistentD(2,5) [OF c]]
  note pl4 = placeInfo_at(4) [OF consistentD(2,5) [OF c], where info = info]
  have s3: "geometryInfo s3 = placeInfo s info" "geometry s3 = G"
    "geometryCount s3 = int (length (placeInfo s info))"
    by (simp_all add: s3_def s2)
  have v3: "validateGeometry s3 ?g = None"
  proof -
    have "validateGeometry s3 ?g = validateGeometry s2 ?g"
      by (rule validateGeometry_schema) (simp_all add: s3 s2)
    with v2 show ?thesis by simp
  qed
  have Gnone: "index G = None" if "index g = None"
    using that ixeq by (simp add: GI)
  have store: "setGeometryAt s3 ?h ?g = (Inr ?h, storeGeometry s3 ?h info ?g p)"
  proof -
    have "infoAt s3 ?h = Some info" using pl1 by (simp add: infoAt_def s3)
    moreover have "\<not> geometryCount s3 \<le> ?h" using pl4 by (simp add: s3)
    moreover have "\<not> (index (geometry s3) \<noteq> None \<and> reservedIndexCount info < indexCountOf ?g)"
      using Gnone large by (auto simp: s3 info_def reservedRegion_def addedRegion_def tooSmall_def)
    moreover have "\<not> reservedVertexCount info < attr_count p"
      using large by (simp add: info_def reservedRegion_def tooSmall_def)
    ultimately show ?thesis
      using v3 p by (simp add: setGeometryAt_def)
  qed
  define s' where
    "s' = (storeGeometry s3 ?h info ?g p)\<lparr>
            nextIndexStart := indexStart info + reservedIndexCount info,
            nextVertexStart := vertexStart info + reservedVertexCount info\<rparr>"
  have run: "addGeometry s g rv ri = (Inr ?h, s')"
    using consistentD(1) [OF c] v resize newInfo alloc store
    by (simp add: addGeometry_def initializeGeometry_def s2_def [symmetric] s'_def)
  have table: "geometryInfo s' = placeInfo s (reservedRegion s g p rv ri)"
  proof -
    have upd: "writeAt (placeInfo s info) ?h r = (placeInfo s info)[nat ?h := r]" for r
      using pl3 pl4 by (simp add: writeAt_def)
    have same: "(placeInfo s info)[nat ?h := r] = placeInfo s r" for r
    proof (cases "availableGeometryIds s = []")
      case True
      with consistentD(2) [OF c] have "nat ?h = length (geometryInfo s)"
        by (simp add: nextHandle_empty)
      with True show ?thesis by (simp add: placeInfo_def)
    next
      case False
      then show ?thesis by (simp add: placeInfo_def)
    qed
    have stored: "geometryInfo s' = (placeInfo s info)[nat ?h :=
        (if index G \<noteq> None \<and> index g \<noteq> None
         then info\<lparr>vertexCount := attr_count p, indexCount := indexCountOf g,
                   start := indexStart info, count := indexCountOf g,
                   boundingBox := geomBoundingBox ?g, boundingSphere := geomBoundingSphere ?g\<rparr>
         else info\<lparr>vertexCount := attr_count p,
                   start := (if index G \<noteq> None then indexStart info else vertexStart info),
                   count := (if index G \<noteq> None then indexCount info else attr_count p),
                   boundingBox := geomBoundingBox ?g, boundingSphere := geomBoundingSphere ?g\<rparr>)]"
      by (auto simp: s'_def storeGeometry_def Let_def s3 setInfoAt_def upd indexCountOf_def
            split: option.splits)
    have "(if index G \<noteq> None \<and> index g \<noteq> None
         then info\<lparr>vertexCount := attr_count p, indexCount := indexCountOf g,
                   start := indexStart info, count := indexCountOf g,
                   boundingBox := geomBoundingBox ?g, boundingSphere := geomBoundingSphere ?g\<rparr>
         else info\<lparr>vertexCount := attr_count p,
                   start := (if index G \<noteq> None then indexStart info else vertexStart info),
                   count := (if index G \<noteq> None then indexCount info else attr_count p),
                   boundingBox := geomBoundingBox ?g, boundingSphere := geomBoundingSphere ?g\<rparr>)
          = reservedRegion s g p rv ri"
      using ixeq Gix by (auto simp: info_def reservedRegion_def addedRegion_def)
    with stored same show ?thesis by simp
  qed
  have rest: "availableGeometryIds s' = tl (sort (availableGeometryIds s))"
    "geometryCount s' = int (length (placeInfo s (reservedRegion s g p rv ri)))"
    "geometryInitialized s'"
    "nextVertexStart s' = nextVertexStart s + vertexSpan p rv"
    "nextIndexStart s' = (if index g = None then -2 else nextIndexStart s + indexSpan g ri)"
    "maxVertexCount s' = ?nv" "maxIndexCount s' = ?ni"
    using consistentD(1) [OF c]
    by (simp_all add: s'_def storeGeometry_def Let_def setInfoAt_def s3_def s2_def info_def
          reservedRegion_def addedRegion_def placeInfo_def split: prod.splits)
  have attrs: "attributes (geometry s') =
       map (writeAttribute ?g (nextVertexStart s) (vertexSpan p rv))
         (map (growAttribute ?nv) (attributes (geometry s)))"
    by (simp add: s'_def storeGeometry_def Let_def setInfoAt_def s3 GA info_def reservedRegion_def
          addedRegion_def split: prod.splits)
  have ix: "index (geometry s') =
       (case (index (geometry s), index g) of
          (Some ix, Some src) \<Rightarrow>
            Some (writeIndex (growIndex ?nv ?ni ix) (snd src) (nextIndexStart s)
                    (nextVertexStart s) (indexSpan g ri))
        | _ \<Rightarrow> None)"
    using ixeq
    by (auto simp: s'_def storeGeometry_def Let_def setInfoAt_def s3 GI info_def
          reservedRegion_def addedRegion_def split: prod.splits option.splits)
  from run table rest attrs ix show ?thesis by blast
qed


lemma addGeometry_stays_consistent:
  assumes c: "consistent s" and v: "validateGeometry s g = None"
    and p: "getAttribute g ''position'' = Some p"
    and fits: "\<not> exceedsCapacity s g p rv ri" and large: "\<not> tooSmall g p rv ri"
    and table: "geometryInfo s' = placeInfo s (reservedRegion s g p rv ri)"
    and free: "availableGeometryIds s' = tl (sort (availableGeometryIds s))"
    and cnt: "geometryCount s' = int (length (placeInfo s (reservedRegion s g p rv ri)))"
    and init: "geometryInitialized s'"
    and nvs: "nextVertexStart s' = nextVertexStart s + vertexSpan p rv"
    and nis: "nextIndexStart s' = (if index g = None then -2 else nextIndexStart s + indexSpan g ri)"
    and mv: "maxVertexCount s' = newMaxVertexCount s g"
    and mi: "maxIndexCount s' = newMaxIndexCount s g"
    and attrs: "attributes (geometry s') =
       map (writeAttribute g' (nextVertexStart s) wv)
         (map (growAttribute (newMaxVertexCount s g)) (attributes (geometry s)))"
    and ix: "index (geometry s') =
       (case (index (geometry s), index g) of
          (Some ix, Some src) \<Rightarrow>
            Some (writeIndex (growIndex (newMaxVertexCount s g) (newMaxIndexCount s g) ix)
                    (snd src) (nextIndexStart s) (nextVertexStart s) wc)
        | _ \<Rightarrow> None)"
  shows "consistent s'"
proof -
  let ?R = "reservedRegion s g p rv ri"
  let ?h = "nextHandle s"
  from large have vs: "attr_count p \<le> vertexSpan p rv" by (simp add: tooSmall_def)
  from fits have vfit: "of_int (nextVertexStart s + vertexSpan p rv) \<le> newMaxVertexCount s g"
    by (simp add: exceedsCapacity_def not_less)
  note pl = placeInfo_at(5,6) [OF consistentD(2,5) [OF c], where info = ?R]
  have ixeq: "(index g = None) = (index (geometry s) = None)" by (rule validate_index [OF v])
  have names: "map fst (attributes (geometry s')) = map fst (attributes (geometry s))"
    by (simp add: attrs comp_def)
  have 1: "distinct (map fst (attributes (geometry s')))"
    using consistentD(3) [OF c] by (simp only: names)
  have 2: "getAttribute (geometry s') ''position'' \<noteq> None"
    using consistentD(4) [OF c] map_of_names [OF names, of "''position''"]
    by (simp add: getAttribute_def)
  have sub: "set (availableGeometryIds s') \<subseteq> set (availableGeometryIds s)"
  proof -
    have "set (tl (sort (availableGeometryIds s))) \<subseteq> set (sort (availableGeometryIds s))"
      by (cases "sort (availableGeometryIds s)") auto
    then show ?thesis by (simp add: free)
  qed
  have 3: "distinct (availableGeometryIds s')"
    using consistentD(10) [OF c] by (simp add: free distinct_tl)
  have notin: "?h \<notin> set (availableGeometryIds s')"
  proof (cases "availableGeometryIds s = []")
    case True
    then show ?thesis by (simp add: free)
  next
    case False
    have "distinct (sort (availableGeometryIds s))" using consistentD(10) [OF c] by simp
    then have "distinct (?h # tl (sort (availableGeometryIds s)))"
      using nextHandle_Min(2) [OF False] by (simp add: sortBy_ascIdSort)
    then show ?thesis by (simp add: free)
  qed
  have 4: "0 \<le> h \<and> h < int (length (geometryInfo s')) \<and> \<not> active (geometryInfo s' ! nat h)"
    if h: "h \<in> set (availableGeometryIds s')" for h
  proof -
    from h sub have old: "h \<in> set (availableGeometryIds s)" by blast
    with consistentD(5) [OF c] have range: "0 \<le> h" "h < int (length (geometryInfo s))" by auto
    from h notin have "h \<noteq> ?h" by blast
    then have "readAt (placeInfo s ?R) h = readAt (geometryInfo s) h"
      by (rule placeInfo_at(2) [OF consistentD(2,5) [OF c]])
    with range pl(2) have "placeInfo s ?R ! nat h = geometryInfo s ! nat h"
      by (auto simp: readAt_def split: if_splits)
    with consistentD(11) [OF c old] range pl(2) show ?thesis by (auto simp: table)
  qed
  have 5: "0 \<le> nextVertexStart s'"
    using consistentD(6) [OF c] vs attr_count_nonneg [of p] unfolding nvs by linarith
  have 6: "of_int (nextVertexStart s') \<le> maxVertexCount s'" using vfit by (simp add: nvs mv)
  have 7: "length (array (snd na)) = nat \<lfloor>maxVertexCount s' * of_nat (itemSize (snd na))\<rfloor>"
    if "na \<in> set (attributes (geometry s'))" for na
    using that by (auto simp: attrs mv)
  have 8: "0 \<le> vertexStart r \<and> 0 \<le> vertexCount r \<and> vertexStart r + vertexCount r \<le> nextVertexStart s'"
    if "r \<in> set (geometryInfo s')" "active r" for r
  proof (cases "r = ?R")
    case True
    then show ?thesis using consistentD(6) [OF c] vs by (simp add: nvs)
  next
    case False
    with that(1) pl(1) have "r \<in> set (geometryInfo s)" by (auto simp: table)
    from consistentD(9) [OF c this that(2)] attr_count_nonneg [of p] vs show ?thesis
      unfolding nvs by linarith
  qed
  have 9: "0 \<le> nextIndexStart s' \<and> of_int (nextIndexStart s') \<le> maxIndexCount s' \<and>
        k' = (if 65535 < maxVertexCount s' then U32 else U16) \<and>
        length arr' = nat \<lfloor>maxIndexCount s'\<rfloor> \<and>
        (\<forall>v \<in> set arr'. wrapIndex k' v = v) \<and>
        (\<forall>r \<in> set (geometryInfo s'). active r \<longrightarrow>
           0 \<le> indexStart r \<and> 0 \<le> indexCount r \<and>
           indexStart r + indexCount r \<le> nextIndexStart s')"
    if some: "index (geometry s') = Some (k', arr')" for k' arr'
  proof -
    let ?nv = "newMaxVertexCount s g" and ?ni = "newMaxIndexCount s g"
    from some ix obtain ky src where old: "index (geometry s) = Some ky" and src: "index g = Some src"
      and new: "(k', arr') = writeIndex (growIndex ?nv ?ni ky) (snd src)
                               (nextIndexStart s) (nextVertexStart s) wc"
      by (auto split: option.splits)
    obtain k arr where ky: "ky = (k, arr)" by (cases ky)
    note i = consistent_indexD [OF c old [unfolded ky]]
    have nonempty: "index g \<noteq> None" using src by simp
    from large nonempty have isp: "indexCountOf g \<le> indexSpan g ri"
      by (simp add: tooSmall_def)
    from fits nonempty
    have ifit: "of_int (nextIndexStart s + indexSpan g ri) \<le> newMaxIndexCount s g"
      by (simp add: exceedsCapacity_def not_less)
    have next': "nextIndexStart s' = nextIndexStart s + indexSpan g ri"
      by (simp add: nis src)
    have k': "k' = (if 65535 < ?nv then U32 else U16)"
      using arg_cong [OF new, of fst] by simp
    have arr': "arr' = snd (writeIndex (growIndex ?nv ?ni ky) (snd src)
                               (nextIndexStart s) (nextVertexStart s) wc)"
      using arg_cong [OF new, of snd] by simp
    have wrapped: "\<forall>v \<in> set arr'. wrapIndex k' v = v"
      unfolding arr' k'
      using writeIndex_wrapped [of "growIndex ?nv ?ni ky" "snd src" "nextIndexStart s"
              "nextVertexStart s" wc] growIndex_wrapped [of _ ?nv ?ni ky]
      by simp
    have regions: "0 \<le> indexStart r \<and> 0 \<le> indexCount r \<and>
                   indexStart r + indexCount r \<le> nextIndexStart s'"
      if "r \<in> set (geometryInfo s')" "active r" for r
    proof (cases "r = ?R")
      case True
      then show ?thesis using i(1) isp nonempty by (simp add: next')
    next
      case False
      with that(1) pl(1) have "r \<in> set (geometryInfo s)" by (auto simp: table)
      with i(6) [OF \<open>r \<in> set (geometryInfo s)\<close> that(2)] indexCountOf_nonneg [of g] isp next'
      show ?thesis by linarith
    qed
    have "length arr' = nat \<lfloor>?ni\<rfloor>" by (simp add: arr')
    moreover have "0 \<le> nextIndexStart s'"
      using i(1) isp indexCountOf_nonneg [of g] unfolding next' by linarith
    moreover have "of_int (nextIndexStart s') \<le> maxIndexCount s'"
      using ifit by (simp add: next' mi)
    ultimately show ?thesis
      using k' wrapped regions by (simp add: mi mv)
  qed
  have 10: "case index (geometry s') of
              None \<Rightarrow> True
            | Some (k', arr') \<Rightarrow>
                0 \<le> nextIndexStart s' \<and> of_int (nextIndexStart s') \<le> maxIndexCount s' \<and>
                k' = (if 65535 < maxVertexCount s' then U32 else U16) \<and>
                length arr' = nat \<lfloor>maxIndexCount s'\<rfloor> \<and>
                (\<forall>v \<in> set arr'. wrapIndex k' v = v) \<and>
                (\<forall>r \<in> set (geometryInfo s'). active r \<longrightarrow>
                   0 \<le> indexStart r \<and> 0 \<le> indexCount r \<and>
                   indexStart r + indexCount r \<le> nextIndexStart s')"
  proof (cases "index (geometry s')")
    case None
    then show ?thesis by simp
  next
    case (Some ka)
    obtain k' arr' where "ka = (k', arr')" by (cases ka)
    with Some have some: "index (geometry s') = Some (k', arr')" by simp
    show ?thesis
      unfolding some option.case prod.case by (rule 9 [OF some])
  qed
  show ?thesis
    unfolding consistent_def
    using init cnt 1 2 3 4 5 6 7 8 10 by (simp add: table)
qed







lemma addGeometry_reserved:
  assumes c: "consistent s" and v: "validateGeometry s g = None"
    and p: "getAttribute g ''position'' = Some p"
    and fits: "\<not> exceedsCapacity s g p rv ri" and large: "\<not> tooSmall g p rv ri"
  shows "\<exists>s'. addGeometry s g rv ri = (Inr (nextHandle s), s') \<and>
     consistent s' \<and>
     geometryInfo s' = placeInfo s (reservedRegion s g p rv ri) \<and>
     availableGeometryIds s' = tl (sort (availableGeometryIds s)) \<and>
     nextVertexStart s' = nextVertexStart s + vertexSpan p rv \<and>
     nextIndexStart s' = (if index g = None then -2 else nextIndexStart s + indexSpan g ri) \<and>
     maxVertexCount s' = newMaxVertexCount s g \<and>
     maxIndexCount s' = newMaxIndexCount s g \<and>
     attributeSchema (attributes (geometry s')) = attributeSchema (attributes (geometry s)) \<and>
     (index (geometry s') \<noteq> None) = (index (geometry s) \<noteq> None) \<and>
     (\<forall>r \<in> set (geometryInfo s). active r \<longrightarrow>
        regionData (geometry s') r = regionData (geometry s) r)"
proof -
  from addGeometry_reserved_eq [OF c v p fits large] obtain s' where
    run: "addGeometry s g rv ri = (Inr (nextHandle s), s')"
    and table: "geometryInfo s' = placeInfo s (reservedRegion s g p rv ri)"
    and free: "availableGeometryIds s' = tl (sort (availableGeometryIds s))"
    and cnt: "geometryCount s' = int (length (placeInfo s (reservedRegion s g p rv ri)))"
    and init: "geometryInitialized s'"
    and nvs: "nextVertexStart s' = nextVertexStart s + vertexSpan p rv"
    and nis: "nextIndexStart s' = (if index g = None then -2 else nextIndexStart s + indexSpan g ri)"
    and mv: "maxVertexCount s' = newMaxVertexCount s g"
    and mi: "maxIndexCount s' = newMaxIndexCount s g"
    and attrs: "attributes (geometry s') =
       map (writeAttribute (ensureBounds g) (nextVertexStart s) (vertexSpan p rv))
         (map (growAttribute (newMaxVertexCount s g)) (attributes (geometry s)))"
    and ix: "index (geometry s') =
       (case (index (geometry s), index g) of
          (Some ix, Some src) \<Rightarrow>
            Some (writeIndex (growIndex (newMaxVertexCount s g) (newMaxIndexCount s g) ix)
                    (snd src) (nextIndexStart s) (nextVertexStart s) (indexSpan g ri))
        | _ \<Rightarrow> None)"
    by blast
  have ixeq: "(index g = None) = (index (geometry s) = None)" by (rule validate_index [OF v])
  have cons: "consistent s'"
    by (rule addGeometry_stays_consistent [OF c v p fits large table free cnt init nvs nis mv mi
          attrs ix])
  have data: "regionData (geometry s') r = regionData (geometry s) r"
    if "r \<in> set (geometryInfo s)" "active r" for r
    by (rule addGeometry_keeps_data [OF c p attrs ix ixeq that])
  have schema: "attributeSchema (attributes (geometry s')) = attributeSchema (attributes (geometry s))"
    unfolding attrs by (simp only: attributeSchema_write attributeSchema_grow)
  have presence: "(index (geometry s') \<noteq> None) = (index (geometry s) \<noteq> None)"
    using ixeq by (auto simp: ix split: option.splits)
  from run cons table free nvs nis mv mi schema presence data show ?thesis by blast
qed

lemma span_default: "vertexSpan p (-1) = attr_count p" "indexSpan g (-1) = indexCountOf g"
  by (simp_all add: vertexSpan_def indexSpan_def)

lemma default_fits:
  assumes c: "consistent s" and v: "validateGeometry s g = None"
    and p: "getAttribute g ''position'' = Some p"
  shows "\<not> exceedsCapacity s g p (-1) (-1)" and "\<not> tooSmall g p (-1) (-1)"
proof -
  note vb = newMaxVertexCount_bounds [OF consistentD(6,7) [OF c] p]
  have ixeq: "(index g = None) = (index (geometry s) = None)" by (rule validate_index [OF v])
  show "\<not> tooSmall g p (-1) (-1)"
    by (simp add: tooSmall_def vertexSpan_def indexSpan_def)
  show "\<not> exceedsCapacity s g p (-1) (-1)"
  proof (cases "index g")
    case None
    with vb(2) show ?thesis
      by (simp add: exceedsCapacity_def vertexSpan_def not_less)
  next
    case (Some src)
    with ixeq obtain k arr where "index (geometry s) = Some (k, arr)" by auto
    note i = consistent_indexD(1,2) [OF c this]
    from Some have "index g \<noteq> None" by simp
    note ib = newMaxIndexCount_bounds [OF i this]
    from vb(2) ib(2) show ?thesis
      by (simp add: exceedsCapacity_def vertexSpan_def indexSpan_def not_less)
  qed
qed

lemma addGeometry_default:
  assumes c: "consistent s" and v: "validateGeometry s g = None"
    and p: "getAttribute g ''position'' = Some p"
  shows "\<exists>s'. addGeometry s g (-1) (-1) = (Inr (nextHandle s), s') \<and>
     consistent s' \<and>
     geometryInfo s' = placeInfo s (addedRegion s g p) \<and>
     availableGeometryIds s' = tl (sort (availableGeometryIds s)) \<and>
     nextVertexStart s' = nextVertexStart s + attr_count p \<and>
     nextIndexStart s' = (if index g = None then -2 else nextIndexStart s + indexCountOf g) \<and>
     maxVertexCount s' = newMaxVertexCount s g \<and>
     maxIndexCount s' = newMaxIndexCount s g \<and>
     attributeSchema (attributes (geometry s')) = attributeSchema (attributes (geometry s)) \<and>
     (index (geometry s') \<noteq> None) = (index (geometry s) \<noteq> None) \<and>
     (\<forall>r \<in> set (geometryInfo s). active r \<longrightarrow>
        regionData (geometry s') r = regionData (geometry s) r)"
  using addGeometry_reserved [OF c v p default_fits [OF c v p]]
  unfolding reservedRegion_default span_default .

subsection \<open>The first payload of a new batch\<close>

lemma initializeGeometry_new:
  assumes "distinct (map fst (attributes g))" and "0 \<le> mv" and "index g \<noteq> None \<longrightarrow> 0 \<le> mi"
  shows "initializeGeometry (newBatch mv mi) g = (None, initialBatch mv mi g)"
proof -
  have init: "initAttributes mv (attributes g) [] = (None, map (allocAttribute mv) (attributes g))"
    using initAttributes_alloc [OF assms(2,1), of "[]"] by simp
  show ?thesis
  proof (cases "index g")
    case None
    then show ?thesis
      using init by (simp add: initializeGeometry_def newBatch_def initialBatch_def emptyGeometry_def)
  next
    case (Some ix)
    with assms(3) have "newTypedArray mi = Inr (nat \<lfloor>mi\<rfloor>)"
      by (intro newTypedArray_nonneg) simp
    with Some show ?thesis
      using init by (simp add: initializeGeometry_def newBatch_def initialBatch_def emptyGeometry_def)
  qed
qed

lemma addGeometry_new:
  assumes "distinct (map fst (attributes g))" and "0 \<le> mv" and "index g \<noteq> None \<longrightarrow> 0 \<le> mi"
  shows "addGeometry (newBatch mv mi) g rv ri = addGeometry (initialBatch mv mi g) g rv ri"
proof -
  have "initializeGeometry (initialBatch mv mi g) g = (None, initialBatch mv mi g)"
    by (simp add: initializeGeometry_def initialBatch_def)
  with initializeGeometry_new [OF assms] show ?thesis
    by (simp add: addGeometry_def)
qed

lemma validateAttributes_alloc:
  assumes "distinct (map fst (attributes g))" and "set bs \<subseteq> set (attributes g)"
  shows "validateAttributes (map (allocAttribute mv) bs) g = None"
  using assms(2)
proof (induction bs)
  case Nil
  then show ?case by simp
next
  case (Cons b bs)
  obtain n a where b: "b = (n, a)" by (cases b)
  with Cons.prems have "(n, a) \<in> set (attributes g)" by simp
  with assms(1) have "getAttribute g n = Some a"
    by (simp add: getAttribute_def)
  with Cons show ?case by (simp add: b allocAttribute_def)
qed

lemma allocAttribute_meta [simp]:
  "fst (allocAttribute mv na) = fst na"
  "itemSize (snd (allocAttribute mv na)) = itemSize (snd na)"
  "normalized (snd (allocAttribute mv na)) = normalized (snd na)"
  "array (snd (allocAttribute mv na)) = replicate (nat \<lfloor>mv * of_nat (itemSize (snd na))\<rfloor>) 0"
  by (simp_all add: allocAttribute_def)

lemma fst_allocAttribute [simp]: "fst \<circ> allocAttribute mv = fst"
  by (rule ext) simp

lemma initialBatch_consistent:
  assumes "distinct (map fst (attributes g))" and "0 \<le> mv" and "index g \<noteq> None \<longrightarrow> 0 \<le> mi"
    and "getAttribute g ''position'' \<noteq> None"
  shows "consistent (initialBatch mv mi g)" and "validateGeometry (initialBatch mv mi g) g = None"
proof -
  have names: "map fst (map (allocAttribute mv) (attributes g)) = map fst (attributes g)"
    by (simp add: allocAttribute_def comp_def)
  have pos: "map_of (map (allocAttribute mv) (attributes g)) ''position'' \<noteq> None"
    using assms(4) map_of_names [OF names, of "''position''"] by (simp add: getAttribute_def)
  have ix: "case index (geometry (initialBatch mv mi g)) of
              None \<Rightarrow> True
            | Some (k, arr) \<Rightarrow>
                0 \<le> nextIndexStart (initialBatch mv mi g) \<and>
                of_int (nextIndexStart (initialBatch mv mi g)) \<le> maxIndexCount (initialBatch mv mi g) \<and>
                k = (if 65535 < maxVertexCount (initialBatch mv mi g) then U32 else U16) \<and>
                length arr = nat \<lfloor>maxIndexCount (initialBatch mv mi g)\<rfloor> \<and>
                (\<forall>v \<in> set arr. wrapIndex k v = v) \<and>
                (\<forall>r \<in> set (geometryInfo (initialBatch mv mi g)). active r \<longrightarrow>
                   0 \<le> indexStart r \<and> 0 \<le> indexCount r \<and>
                   indexStart r + indexCount r \<le> nextIndexStart (initialBatch mv mi g))"
    using assms(3)
    by (cases "index g") (simp_all add: initialBatch_def newBatch_def emptyGeometry_def)
  show "consistent (initialBatch mv mi g)"
    unfolding consistent_def
    using assms(1,2) pos ix
    by (simp add: initialBatch_def newBatch_def emptyGeometry_def getAttribute_def)
  show "validateGeometry (initialBatch mv mi g) g = None"
    using validateAttributes_alloc [OF assms(1), of "attributes g" mv]
    by (cases "index g") (simp_all add: validateGeometry_def initialBatch_def newBatch_def emptyGeometry_def)
qed

subsection \<open>deleteGeometry on a consistent batch\<close>

lemma deleteGeometry_consistent:
  assumes c: "consistent s" and h: "infoAt s h = Some r" "active r"
  shows "deleteGeometry s h =
           (None, s\<lparr>geometryInfo := (geometryInfo s)[nat h := r\<lparr>active := False, visible := False\<rparr>],
                    availableGeometryIds := availableGeometryIds s @ [h]\<rparr>)"
    and "consistent (s\<lparr>geometryInfo := (geometryInfo s)[nat h := r\<lparr>active := False, visible := False\<rparr>],
                    availableGeometryIds := availableGeometryIds s @ [h]\<rparr>)"
proof -
  let ?r = "r\<lparr>active := False, visible := False\<rparr>"
  let ?s = "s\<lparr>geometryInfo := (geometryInfo s)[nat h := ?r],
              availableGeometryIds := availableGeometryIds s @ [h]\<rparr>"
  from h(1) have range: "0 \<le> h" "h < int (length (geometryInfo s))" and r: "r = geometryInfo s ! nat h"
    by (auto simp: infoAt_def readAt_def split: if_splits)
  show "deleteGeometry s h = (None, ?s)"
    using h range by (simp add: deleteGeometry_def setInfoAt_def writeAt_def)
  have fresh: "h \<notin> set (availableGeometryIds s)"
    using consistentD(11) [OF c, of h] h(2) r by auto
  have sub: "r' \<in> set (geometryInfo s)" if "r' \<in> set ((geometryInfo s)[nat h := ?r])" "active r'" for r'
    using that set_update_subset_insert [of "geometryInfo s" "nat h" ?r] by auto
  have inactive: "\<not> active ((geometryInfo s)[nat h := ?r] ! nat h')"
    if "h' \<in> set (availableGeometryIds s) \<or> h' = h" for h'
  proof (cases "h' = h")
    case True
    with range show ?thesis by simp
  next
    case False
    with that have mem: "h' \<in> set (availableGeometryIds s)" by simp
    with consistentD(5) [OF c] have "0 \<le> h'" by auto
    with False range have "nat h' \<noteq> nat h" by auto
    with consistentD(11) [OF c mem] show ?thesis by simp
  qed
  have ix: "case index (geometry ?s) of
              None \<Rightarrow> True
            | Some (k, arr) \<Rightarrow>
                0 \<le> nextIndexStart ?s \<and> of_int (nextIndexStart ?s) \<le> maxIndexCount ?s \<and>
                k = (if 65535 < maxVertexCount ?s then U32 else U16) \<and>
                length arr = nat \<lfloor>maxIndexCount ?s\<rfloor> \<and>
                (\<forall>v \<in> set arr. wrapIndex k v = v) \<and>
                (\<forall>r \<in> set (geometryInfo ?s). active r \<longrightarrow>
                   0 \<le> indexStart r \<and> 0 \<le> indexCount r \<and>
                   indexStart r + indexCount r \<le> nextIndexStart ?s)"
  proof (cases "index (geometry s)")
    case None
    then show ?thesis by simp
  next
    case (Some ka)
    obtain k arr where "ka = (k, arr)" by (cases ka)
    with Some have some: "index (geometry s) = Some (k, arr)" by simp
    note i = consistent_indexD [OF c some]
    have "0 \<le> indexStart r' \<and> 0 \<le> indexCount r' \<and> indexStart r' + indexCount r' \<le> nextIndexStart s"
      if "r' \<in> set ((geometryInfo s)[nat h := ?r])" "active r'" for r'
      using i(6) [OF sub [OF that] that(2)] .
    with i(1,2,3,4) i(5) show ?thesis by (simp add: some)
  qed
  have regions: "0 \<le> vertexStart r' \<and> 0 \<le> vertexCount r' \<and>
                 vertexStart r' + vertexCount r' \<le> nextVertexStart s"
    if "r' \<in> set ((geometryInfo s)[nat h := ?r])" "active r'" for r'
    using consistentD(9) [OF c sub [OF that] that(2)] .
  have free: "0 \<le> h' \<and> h' < int (length (geometryInfo s)) \<and>
              \<not> active ((geometryInfo s)[nat h := ?r] ! nat h')"
    if "h' \<in> set (availableGeometryIds s) \<or> h' = h" for h'
    using that inactive [OF that] consistentD(5) [OF c] range by auto
  show "consistent ?s"
    unfolding consistent_def
    using consistentD(1,2,3,4,6,7,10) [OF c] consistentD(8) [OF c] fresh regions free ix
    by simp
qed

subsection \<open>The table after optimize\<close>

lemma optimizeRegion_table:
  "geometryInfo (fst (optimizeRegion (s, nv, ni) (info, i))) =
     writeAt (geometryInfo s) (int i) (packedRegion (index (geometry s) \<noteq> None) nv ni info)"
  "snd (optimizeRegion (s, nv, ni) (info, i)) =
     (nv + vertexCount info, ni + (if index (geometry s) \<noteq> None then indexCount info else 0))"
  "(index (geometry (fst (optimizeRegion (s, nv, ni) (info, i)))) \<noteq> None) =
     (index (geometry s) \<noteq> None)"
  by (cases "index (geometry s)";
      auto simp: optimizeRegion_def Let_def setInfoAt_def packedRegion_def split: prod.splits)+

lemma optimize_table:
  "geometryInfo (optimize s) = geometryInfo (fst (foldl optimizeRegion (s, 0, 0) (activeInfos s)))"
  by (simp add: optimize_def Let_def split: prod.splits)

lemma packedRegion_simps [simp]:
  "vertexStart (packedRegion b nv ni r) = nv"
  "vertexCount (packedRegion b nv ni r) = vertexCount r"
  "reservedVertexCount (packedRegion b nv ni r) = reservedVertexCount r"
  "active (packedRegion b nv ni r) = active r"
  "visible (packedRegion b nv ni r) = visible r"
  "boundingBox (packedRegion b nv ni r) = boundingBox r"
  by (simp_all add: packedRegion_def)

subsection \<open>The scenario of the reused handle\<close>

lemma reuse_scenario:
  assumes g1: "distinct (map fst (attributes g1))" "getAttribute g1 ''position'' = Some p1"
      "attr_count p1 = 4"
    and g2: "getAttribute g2 ''position'' = Some p2" "attr_count p2 = 6"
      "validateGeometry (initialBatch mv mi g1) g2 = None"
    and g3: "getAttribute g3 ''position'' = Some p3" "attr_count p3 = 4"
      "validateGeometry (initialBatch mv mi g1) g3 = None"
    and caps: "0 \<le> mv" "index g1 \<noteq> None \<longrightarrow> 0 \<le> mi"
  obtains s1 s2 s3 s4 where
     "addGeometry (newBatch mv mi) g1 (-1) (-1) = (Inr 0, s1)"
     "addGeometry s1 g2 (-1) (-1) = (Inr 1, s2)"
     "deleteGeometry s2 0 = (None, s3)"
     "addGeometry s3 g3 (-1) (-1) = (Inr 0, s4)"
     "map (\<lambda>r. (vertexStart r, vertexCount r, active r)) (geometryInfo s1) = [(0, 4, True)]"
     "map (\<lambda>r. (vertexStart r, vertexCount r, active r)) (geometryInfo s2) =
        [(0, 4, True), (4, 6, True)]"
     "map (\<lambda>r. (vertexStart r, vertexCount r, active r)) (geometryInfo s3) =
        [(0, 4, False), (4, 6, True)]"
     "map (\<lambda>r. (vertexStart r, vertexCount r, active r)) (geometryInfo s4) =
        [(10, 4, True), (4, 6, True)]"
     "map (\<lambda>r. (vertexStart r, vertexCount r, active r)) (geometryInfo (optimize s4)) =
        [(6, 4, True), (0, 6, True)]"
proof -
  let ?s0 = "initialBatch mv mi g1"
  let ?view = "map (\<lambda>r. (vertexStart r, vertexCount r, active r))"
  have pos1: "getAttribute g1 ''position'' \<noteq> None" using g1(2) by simp
  note c0 = initialBatch_consistent [OF g1(1) caps pos1]
  have s0: "availableGeometryIds ?s0 = []" "geometryCount ?s0 = 0" "geometryInfo ?s0 = []"
    "nextVertexStart ?s0 = 0"
    by (simp_all add: initialBatch_def newBatch_def)
  \<comment> \<open>the first payload\<close>
  from addGeometry_default [OF c0 g1(2)] obtain s1 where
    run1: "addGeometry ?s0 g1 (-1) (-1) = (Inr (nextHandle ?s0), s1)"
    and c1: "consistent s1"
    and t1: "geometryInfo s1 = placeInfo ?s0 (addedRegion ?s0 g1 p1)"
    and f1: "availableGeometryIds s1 = tl (sort (availableGeometryIds ?s0))"
    and n1: "nextVertexStart s1 = nextVertexStart ?s0 + attr_count p1"
    and sch1: "attributeSchema (attributes (geometry s1)) = attributeSchema (attributes (geometry ?s0))"
    and ix1: "(index (geometry s1) \<noteq> None) = (index (geometry ?s0) \<noteq> None)"
    by blast
  have h1: "nextHandle ?s0 = 0" by (simp add: nextHandle_empty s0)
  have run1': "addGeometry (newBatch mv mi) g1 (-1) (-1) = (Inr 0, s1)"
    using run1 h1 addGeometry_new [OF g1(1) caps] by simp
  have t1': "geometryInfo s1 = [addedRegion ?s0 g1 p1]" by (simp add: t1 placeInfo_def s0)
  have f1': "availableGeometryIds s1 = []" by (simp add: f1 s0)
  have n1': "nextVertexStart s1 = 4" by (simp add: n1 s0 g1(3))
  have v1: "?view (geometryInfo s1) = [(0, 4, True)]" by (simp add: t1' s0 g1(3))
  \<comment> \<open>the second payload\<close>
  have val2: "validateGeometry s1 g2 = None"
    using validateGeometry_schema [OF sch1 ix1, of g2] g2(3) by simp
  from addGeometry_default [OF c1 val2 g2(1)] obtain s2 where
    run2: "addGeometry s1 g2 (-1) (-1) = (Inr (nextHandle s1), s2)"
    and c2: "consistent s2"
    and t2: "geometryInfo s2 = placeInfo s1 (addedRegion s1 g2 p2)"
    and f2: "availableGeometryIds s2 = tl (sort (availableGeometryIds s1))"
    and n2: "nextVertexStart s2 = nextVertexStart s1 + attr_count p2"
    and sch2: "attributeSchema (attributes (geometry s2)) = attributeSchema (attributes (geometry s1))"
    and ix2: "(index (geometry s2) \<noteq> None) = (index (geometry s1) \<noteq> None)"
    by blast
  have h2: "nextHandle s1 = 1"
    using consistentD(2) [OF c1] by (simp add: nextHandle_empty f1' t1')
  have t2': "geometryInfo s2 = [addedRegion ?s0 g1 p1, addedRegion s1 g2 p2]"
    by (simp add: t2 placeInfo_def f1' t1')
  have f2': "availableGeometryIds s2 = []" by (simp add: f2 f1')
  have n2': "nextVertexStart s2 = 10" by (simp add: n2 n1' g2(2))
  have v2: "?view (geometryInfo s2) = [(0, 4, True), (4, 6, True)]"
    by (simp add: t2' s0 g1(3) n1' g2(2))
  \<comment> \<open>the deletion of handle 0\<close>
  let ?d = "(addedRegion ?s0 g1 p1)\<lparr>active := False, visible := False\<rparr>"
  let ?s3 = "s2\<lparr>geometryInfo := (geometryInfo s2)[nat 0 := ?d],
                availableGeometryIds := availableGeometryIds s2 @ [0]\<rparr>"
  have at0: "infoAt s2 0 = Some (addedRegion ?s0 g1 p1)"
    by (simp add: infoAt_def readAt_def t2')
  note del = deleteGeometry_consistent [OF c2 at0 addedRegion_simps(4)]
  have t3: "geometryInfo ?s3 = [?d, addedRegion s1 g2 p2]" by (simp add: t2')
  have f3: "availableGeometryIds ?s3 = [0]" by (simp add: f2')
  have v3: "?view (geometryInfo ?s3) = [(0, 4, False), (4, 6, True)]"
    by (simp add: t2' s0 g1(3) n1' g2(2))
  \<comment> \<open>the third payload takes the freed handle\<close>
  have val3: "validateGeometry ?s3 g3 = None"
  proof -
    have "validateGeometry ?s3 g3 = validateGeometry s2 g3"
      by (rule validateGeometry_schema) simp_all
    also have "\<dots> = validateGeometry s1 g3" by (rule validateGeometry_schema [OF sch2 ix2])
    also have "\<dots> = validateGeometry ?s0 g3" by (rule validateGeometry_schema [OF sch1 ix1])
    finally show ?thesis using g3(3) by simp
  qed
  from addGeometry_default [OF del(2) val3 g3(1)] obtain s4 where
    run4: "addGeometry ?s3 g3 (-1) (-1) = (Inr (nextHandle ?s3), s4)"
    and t4: "geometryInfo s4 = placeInfo ?s3 (addedRegion ?s3 g3 p3)"
    by blast
  have h4: "nextHandle ?s3 = 0"
    by (simp add: nextHandle_def f2' sortBy_def)
  have t4': "geometryInfo s4 = [addedRegion ?s3 g3 p3, addedRegion s1 g2 p2]"
    by (simp add: t4 placeInfo_def f2' h4 [simplified] nextHandle_def sortBy_def t2')
  have v4: "?view (geometryInfo s4) = [(10, 4, True), (4, 6, True)]"
    by (simp add: t4' n2' n1' g2(2) g3(2))
  \<comment> \<open>the packing\<close>
  let ?R3 = "addedRegion ?s3 g3 p3" and ?R2 = "addedRegion s1 g2 p2"
  have R3: "vertexStart ?R3 = 10" "vertexCount ?R3 = 4" by (simp_all add: n2' g3(2))
  have R2: "vertexStart ?R2 = 4" "vertexCount ?R2 = 6" by (simp_all add: n1' g2(2))
  have order: "activeInfos s4 = [(?R2, 1), (?R3, 0)]"
    by (simp add: activeInfos_def t4' sortBy_def upt_conv_Cons n1' n2')
  define x1 where "x1 = optimizeRegion (s4, 0, 0) (?R2, 1)"
  define x2 where "x2 = optimizeRegion x1 (?R3, 0)"
  have x1: "geometryInfo (fst x1) = [?R3, packedRegion (index (geometry s4) \<noteq> None) 0 0 ?R2]"
    "fst (snd x1) = 6"
    by (simp_all add: x1_def optimizeRegion_table t4' writeAt_def g2(2))
  obtain sa na ia where xa: "x1 = (sa, na, ia)" by (cases x1)
  have x2: "geometryInfo (fst x2) =
      [packedRegion (index (geometry sa) \<noteq> None) 6 ia ?R3,
       packedRegion (index (geometry s4) \<noteq> None) 0 0 ?R2]"
    using x1 by (simp add: x2_def xa optimizeRegion_table writeAt_def)
  have "geometryInfo (optimize s4) = geometryInfo (fst x2)"
    by (simp add: optimize_table order x1_def x2_def)
  then have v5: "?view (geometryInfo (optimize s4)) = [(6, 4, True), (0, 6, True)]"
    by (simp add: x2 g2(2) g3(2))
  show ?thesis
    by (rule that [OF run1' run2 [unfolded h2] del(1) run4 [unfolded h4] v1 v2 v3 v4 v5])
qed

subsection \<open>The states of the scenarios\<close>

lemma oneQuad_eq:
  "oneQuad =
     \<lparr>maxVertexCount = 12, maxIndexCount = 24,
      geometryInfo =
        [\<lparr>vertexStart = 0, vertexCount = 4, reservedVertexCount = 4,
          indexStart = 0, indexCount = 6, reservedIndexCount = 6, start = 0, count = 6,
          boundingBox = Some (Box (0, 0, 0) (1, 1, 0)),
          boundingSphere = Some (Sphere (1 / 2, 1 / 2, 0) (1 / 2)),
          active = True, visible = True, objectId = None, bboxIntersectionCheck = False\<rparr>],
      availableGeometryIds = [], nextIndexStart = 6, nextVertexStart = 4,
      geometryCount = 1, geometryInitialized = True,
      geometry =
        \<lparr>attributes =
           [(''position'',
             \<lparr>itemSize = 3, normalized = False,
              array = [0, 0, 0, 1, 0, 0, 1, 1, 0, 0, 1, 0] @ replicate 24 0\<rparr>)],
         index = Some (U16, [0, 1, 1, 2, 2, 3] @ replicate 18 0),
         geomBoundingBox = None, geomBoundingSphere = None, drawRange = (0, None)\<rparr>\<rparr>"
  by code_simp

subsection \<open>Batches built by calls are consistent\<close>








subsection \<open>extractGeometry\<close>

lemma extractTotals_single:
  "validateGeometryId s h = None \<Longrightarrow> \<exists>t. extractTotals s [h] (0, 0) = Inr t"
  by (simp add: getGeometryAt_def)

text \<open>
  C8. The round trip starts with \<^verbatim>\<open>extractGeometry([h])\<close>. For a live handle \<open>h\<close> of a batch
  that has an attribute (every batch that holds a geometry has the position attribute), the
  call does not return a payload: it throws the ReferenceError of the undeclared
  \<^verbatim>\<open>maxVertexCount\<close>, so there is nothing to add to a fresh batch.
\<close>

theorem extractGeometry_live_handle_throws:
  assumes "validateGeometryId s h = None" and "attributes (geometry s) \<noteq> []"
  shows "extractGeometry s [h] = Inl (ReferenceError ''maxVertexCount'')"
proof -
  from assms(1) obtain t where "extractTotals s [h] (0, 0) = Inr t"
    using extractTotals_single by blast
  with assms(2) show ?thesis
    by (cases t) (simp add: extractGeometry_def)
qed

theorem extractGeometry_live_handle_throws_witness:
  "validateGeometryId oneQuad 0 = None \<and> attributes (geometry oneQuad) \<noteq> [] \<and>
   extractGeometry oneQuad [0] = Inl (ReferenceError ''maxVertexCount'')"
proof -
  have v: "validateGeometryId oneQuad 0 = None"
    by (simp add: oneQuad_eq validateGeometryId_def)
  have a: "attributes (geometry oneQuad) \<noteq> []"
    by (simp add: oneQuad_eq)
  show ?thesis
    using v a extractGeometry_live_handle_throws [OF v a] by simp
qed

subsection \<open>deleteGeometry\<close>

text \<open>
  C10. \<^verbatim>\<open>deleteGeometry\<close> guards \<^verbatim>\<open>geometryId >= geometryInfoList.length\<close> but, unlike
  \<^verbatim>\<open>validateGeometryId\<close>, not \<^verbatim>\<open>geometryId < 0\<close>: for a negative handle
  \<^verbatim>\<open>geometryInfoList[geometryId]\<close> is \<^verbatim>\<open>undefined\<close> and reading its \<^verbatim>\<open>active\<close> throws a
  TypeError, in every batch.
\<close>

theorem deleteGeometry_negative_handle_throws:
  assumes "h < 0"
  shows "deleteGeometry s h = (Some TypeError, s)"
  using assms by (simp add: deleteGeometry_def infoAt_def readAt_def)

theorem deleteGeometry_negative_handle_throws_witness:
  "(-1 :: int) < 0 \<and> deleteGeometry oneQuad (-1) = (Some TypeError, oneQuad)"
  using deleteGeometry_negative_handle_throws [of "-1" oneQuad] by simp

subsection \<open>Growth\<close>




subsection \<open>The reused handle\<close>

lemma view_ranges:
  assumes "map (\<lambda>r. (vertexStart r, vertexCount r, active r)) (geometryInfo s) = [(a0, n0, b0), (a1, n1, b1)]"
  shows "vertexRange s 0 = Some (a0, a0 + n0)" and "vertexRange s 1 = Some (a1, a1 + n1)"
    and "b0 \<Longrightarrow> validateGeometryId s 0 = None" and "b1 \<Longrightarrow> validateGeometryId s 1 = None"
  using assms
  by (auto simp: vertexRange_def infoAt_def readAt_def validateGeometryId_def map_eq_Cons_conv)

lemma view_range_single:
  assumes "map (\<lambda>r. (vertexStart r, vertexCount r, active r)) (geometryInfo s) = [(a0, n0, b0)]"
  shows "vertexRange s 0 = Some (a0, a0 + n0)"
  using assms
  by (auto simp: vertexRange_def infoAt_def readAt_def map_eq_Cons_conv)

lemma quad_payload:
  "distinct (map fst (attributes quad))"
  "getAttribute quad ''position'' =
     Some \<lparr>itemSize = 3, normalized = False, array = [0, 0, 0, 1, 0, 0, 1, 1, 0, 0, 1, 0]\<rparr>"
  "attr_count \<lparr>itemSize = 3, normalized = False, array = [0, 0, 0, 1, 0, 0, 1, 1, 0, 0, 1, 0]\<rparr> = 4"
  "index quad \<noteq> None"
  by (simp_all add: quad_def payload_def getAttribute_def attr_count_def)

lemma strip_payload:
  "getAttribute strip ''position'' =
     Some \<lparr>itemSize = 3, normalized = False,
            array = [5, 5, 0, 6, 5, 0, 7, 5, 0, 8, 5, 0, 9, 5, 0, 10, 5, 0]\<rparr>"
  "attr_count \<lparr>itemSize = 3, normalized = False,
            array = [5, 5, 0, 6, 5, 0, 7, 5, 0, 8, 5, 0, 9, 5, 0, 10, 5, 0]\<rparr> = 6"
  by (simp_all add: strip_def payload_def getAttribute_def attr_count_def)

lemma accepted_after_quad:
  "validateGeometry (initialBatch mv mi quad) quad = None"
  "validateGeometry (initialBatch mv mi quad) strip = None"
  by (simp_all add: validateGeometry_def initialBatch_def newBatch_def emptyGeometry_def
        quad_def strip_def payload_def getAttribute_def allocAttribute_def)

text \<open>
  C9, as amended. On a new batch for 1000 vertices, for any payloads of four, six and four
  vertices of one schema: the first gets handle 0 and the vertices [0,4), the second handle
  1 and [4,10); after \<^verbatim>\<open>deleteGeometry(0)\<close> the third reuses handle 0 with its vertices at the
  tail, [10,14); and \<^verbatim>\<open>optimize()\<close>, which packs in the order of the current vertex offsets,
  moves handle 1 to [0,6) and handle 0 to [6,10), both handles staying valid.
\<close>

theorem reuse_then_optimize:
  assumes "distinct (map fst (attributes g1))"
    and "getAttribute g1 ''position'' = Some p1" and "attr_count p1 = 4"
    and "getAttribute g2 ''position'' = Some p2" and "attr_count p2 = 6"
    and "validateGeometry (initialBatch 1000 2000 g1) g2 = None"
    and "getAttribute g3 ''position'' = Some p3" and "attr_count p3 = 4"
    and "validateGeometry (initialBatch 1000 2000 g1) g3 = None"
  shows "\<exists>s1 s2 s3 s4.
     addGeometry (newBatch 1000 2000) g1 (-1) (-1) = (Inr 0, s1) \<and>
     vertexRange s1 0 = Some (0, 4) \<and>
     addGeometry s1 g2 (-1) (-1) = (Inr 1, s2) \<and>
     vertexRange s2 1 = Some (4, 10) \<and>
     deleteGeometry s2 0 = (None, s3) \<and>
     addGeometry s3 g3 (-1) (-1) = (Inr 0, s4) \<and>
     vertexRange s4 0 = Some (10, 14) \<and> vertexRange s4 1 = Some (4, 10) \<and>
     vertexRange (optimize s4) 0 = Some (6, 10) \<and> vertexRange (optimize s4) 1 = Some (0, 6) \<and>
     validateGeometryId (optimize s4) 0 = None \<and> validateGeometryId (optimize s4) 1 = None"
proof -
  have caps: "(0::rat) \<le> 1000" "index g1 \<noteq> None \<longrightarrow> (0::rat) \<le> 2000" by simp_all
  obtain s1 s2 s3 s4 where
    runs: "addGeometry (newBatch 1000 2000) g1 (-1) (-1) = (Inr 0, s1)"
      "addGeometry s1 g2 (-1) (-1) = (Inr 1, s2)"
      "deleteGeometry s2 0 = (None, s3)"
      "addGeometry s3 g3 (-1) (-1) = (Inr 0, s4)"
    and v1: "map (\<lambda>r. (vertexStart r, vertexCount r, active r)) (geometryInfo s1) = [(0, 4, True)]"
    and v2: "map (\<lambda>r. (vertexStart r, vertexCount r, active r)) (geometryInfo s2) =
       [(0, 4, True), (4, 6, True)]"
    and v3: "map (\<lambda>r. (vertexStart r, vertexCount r, active r)) (geometryInfo s3) =
       [(0, 4, False), (4, 6, True)]"
    and v4: "map (\<lambda>r. (vertexStart r, vertexCount r, active r)) (geometryInfo s4) =
       [(10, 4, True), (4, 6, True)]"
    and v5: "map (\<lambda>r. (vertexStart r, vertexCount r, active r)) (geometryInfo (optimize s4)) =
       [(6, 4, True), (0, 6, True)]"
    by (rule reuse_scenario [OF assms caps])
  from runs view_range_single [OF v1] view_ranges(2) [OF v2] view_ranges(1,2) [OF v4]
    view_ranges [OF v5]
  show ?thesis
    by (intro exI [of _ s1] exI [of _ s2] exI [of _ s3] exI [of _ s4]) simp
qed

theorem reuse_then_optimize_witness:
  "distinct (map fst (attributes quad)) \<and>
   validateGeometry (initialBatch 1000 2000 quad) strip = None \<and>
   validateGeometry (initialBatch 1000 2000 quad) quad = None \<and>
   (\<exists>s1 s2 s3 s4.
     addGeometry (newBatch 1000 2000) quad (-1) (-1) = (Inr 0, s1) \<and>
     vertexRange s1 0 = Some (0, 4) \<and>
     addGeometry s1 strip (-1) (-1) = (Inr 1, s2) \<and>
     vertexRange s2 1 = Some (4, 10) \<and>
     deleteGeometry s2 0 = (None, s3) \<and>
     addGeometry s3 quad (-1) (-1) = (Inr 0, s4) \<and>
     vertexRange s4 0 = Some (10, 14) \<and> vertexRange s4 1 = Some (4, 10) \<and>
     vertexRange (optimize s4) 0 = Some (6, 10) \<and> vertexRange (optimize s4) 1 = Some (0, 6) \<and>
     validateGeometryId (optimize s4) 0 = None \<and> validateGeometryId (optimize s4) 1 = None)"
  using reuse_then_optimize [OF quad_payload(1,2,3) strip_payload accepted_after_quad(2)
          quad_payload(2,3) accepted_after_quad(1)]
    quad_payload(1) accepted_after_quad [of 1000 2000]
  by simp

text \<open>
  C9 as stated has handle 0 at [0,4) after \<^verbatim>\<open>optimize()\<close>. In the scenario it is at [6,10):
  the region of handle 1 has the lower vertex offset and is packed first.
\<close>

theorem reused_handle_after_optimize:
  "vertexRange reused 0 = Some (10, 14) \<and> vertexRange (optimize reused) 0 = Some (6, 10) \<and>
   vertexRange (optimize reused) 0 \<noteq> Some (0, 4)"
proof -
  have caps: "(0::rat) \<le> 1000" "index quad \<noteq> None \<longrightarrow> (0::rat) \<le> 2000" by simp_all
  obtain s1 s2 s3 s4 where
    runs: "addGeometry (newBatch 1000 2000) quad (-1) (-1) = (Inr 0, s1)"
      "addGeometry s1 strip (-1) (-1) = (Inr 1, s2)"
      "deleteGeometry s2 0 = (None, s3)"
      "addGeometry s3 quad (-1) (-1) = (Inr 0, s4)"
    and v1: "map (\<lambda>r. (vertexStart r, vertexCount r, active r)) (geometryInfo s1) = [(0, 4, True)]"
    and v2: "map (\<lambda>r. (vertexStart r, vertexCount r, active r)) (geometryInfo s2) =
       [(0, 4, True), (4, 6, True)]"
    and v3: "map (\<lambda>r. (vertexStart r, vertexCount r, active r)) (geometryInfo s3) =
       [(0, 4, False), (4, 6, True)]"
    and v4: "map (\<lambda>r. (vertexStart r, vertexCount r, active r)) (geometryInfo s4) =
       [(10, 4, True), (4, 6, True)]"
    and v5: "map (\<lambda>r. (vertexStart r, vertexCount r, active r)) (geometryInfo (optimize s4)) =
       [(6, 4, True), (0, 6, True)]"
    by (rule reuse_scenario [OF quad_payload(1,2,3) strip_payload accepted_after_quad(2)
          quad_payload(2,3) accepted_after_quad(1) caps])
  have "reused = s4" by (simp add: reused_def runs)
  with view_ranges(1) [OF v4] view_ranges(1) [OF v5] show ?thesis by simp
qed

subsection \<open>Schema mismatch\<close>

text \<open>
  C6, as amended. On a batch whose schema is established, \<^verbatim>\<open>addGeometry\<close> throws a schema
  error, and changes nothing, exactly for a payload that does not match the schema: one
  with an index where the batch has none (or the converse), or one that lacks an attribute
  of the batch, or has it with another item size or normalized flag. For a payload that
  matches, no error \<^verbatim>\<open>addGeometry\<close> throws is a schema error (the attributes of the batch,
  the keys of an object, being distinct). Attributes the batch does not have are not
  compared and not read: a payload that matches stays a match when attributes are added
  to it, and, when it has a position, \<^verbatim>\<open>addGeometry\<close> returns the same and leaves the same
  batch with and without them.
\<close>

theorem addGeometry_schema_mismatch:
  assumes "geometryInitialized s"
  shows "(\<not> matchesSchema s g \<longrightarrow>
            (\<exists>e. schemaError e \<and> addGeometry s g rv ri = (Inl e, s))) \<and>
         (matchesSchema s g \<longrightarrow>
            (distinct (map fst (attributes (geometry s))) \<longrightarrow>
               (\<forall>e s'. addGeometry s g rv ri = (Inl e, s') \<longrightarrow> \<not> schemaError e)) \<and>
            matchesSchema s (g\<lparr>attributes := attributes g @ extra\<rparr>) \<and>
            (getAttribute g ''position'' \<noteq> None \<longrightarrow>
               addGeometry s (g\<lparr>attributes := attributes g @ extra\<rparr>) rv ri =
               addGeometry s g rv ri))"
proof (intro conjI impI allI)
  assume "\<not> matchesSchema s g"
  then obtain e where e: "validateGeometry s g = Some e"
    by (auto simp: validateGeometry_matches [symmetric])
  from addGeometry_steps(1) [OF assms e] validateGeometry_error [OF e]
  show "\<exists>e. schemaError e \<and> addGeometry s g rv ri = (Inl e, s)"
    by blast
next
  fix e s'
  assume "matchesSchema s g" and "distinct (map fst (attributes (geometry s)))"
    and "addGeometry s g rv ri = (Inl e, s')"
  then show "\<not> schemaError e"
    by (intro addGeometry_no_schema_error [OF assms]) (simp_all add: validateGeometry_matches)
next
  assume "matchesSchema s g"
  then show "matchesSchema s (g\<lparr>attributes := attributes g @ extra\<rparr>)"
    by (rule matchesSchema_extra)
next
  assume "matchesSchema s g" and "getAttribute g ''position'' \<noteq> None"
  then show "addGeometry s (g\<lparr>attributes := attributes g @ extra\<rparr>) rv ri =
             addGeometry s g rv ri"
    by (rule addGeometry_extra [OF assms])
qed

theorem addGeometry_schema_mismatch_witness:
  "geometryInitialized oneQuad \<and> \<not> matchesSchema oneQuad unindexed \<and>
   (\<exists>e. schemaError e \<and> addGeometry oneQuad unindexed (-1) (-1) = (Inl e, oneQuad)) \<and>
   matchesSchema oneQuad quad \<and>
   distinct (map fst (attributes (geometry oneQuad))) \<and>
   \<not> (\<exists>e s'. addGeometry oneQuad quad (-1) (-1) = (Inl e, s') \<and> schemaError e) \<and>
   matchesSchema oneQuad coloured \<and>
   getAttribute quad ''position'' \<noteq> None \<and>
   addGeometry oneQuad coloured (-1) (-1) = addGeometry oneQuad quad (-1) (-1)"
proof -
  have i: "geometryInitialized oneQuad" by (simp add: oneQuad_eq)
  have d: "distinct (map fst (attributes (geometry oneQuad)))" by (simp add: oneQuad_eq)
  have n: "\<not> matchesSchema oneQuad unindexed" by code_simp
  have m: "matchesSchema oneQuad quad" by code_simp
  have p: "getAttribute quad ''position'' \<noteq> None" by code_simp
  note A = addGeometry_schema_mismatch [OF i, of unindexed "-1" "-1"]
  note B = addGeometry_schema_mismatch [OF i, of quad "-1" "-1"
      "[(''color'', \<lparr>itemSize = 3, normalized = False,
                     array = [1, 0, 0, 1, 0, 0, 1, 0, 0, 1, 0, 0]\<rparr>)]"]
  from A n have a: "\<exists>e. schemaError e \<and> addGeometry oneQuad unindexed (-1) (-1) = (Inl e, oneQuad)"
    by blast
  from B m d have b: "\<not> (\<exists>e s'. addGeometry oneQuad quad (-1) (-1) = (Inl e, s') \<and> schemaError e)"
    by blast
  from B m have c: "matchesSchema oneQuad coloured" unfolding coloured_def by blast
  from B m p have e: "addGeometry oneQuad coloured (-1) (-1) = addGeometry oneQuad quad (-1) (-1)"
    unfolding coloured_def by blast
  from i n a m d b c p e show ?thesis by (intro conjI)
qed

text \<open>
  C6 as stated fails: the batch has the position attribute only, the payload has a colour
  as well, and the call returns handle 1 and stores the payload.
\<close>

theorem addGeometry_extra_attribute_accepted:
  "map fst (attributes (geometry oneQuad)) = [''position''] \<and>
   map fst (attributes coloured) = [''position'', ''color''] \<and>
   fst (addGeometry oneQuad coloured (-1) (-1)) = Inr 1 \<and>
   geometryCount (snd (addGeometry oneQuad coloured (-1) (-1))) = 2"
  by code_simp

subsection \<open>Invalid handles\<close>

text \<open>
  C7, as amended. For a handle that is negative, beyond the table or deleted,
  \<^verbatim>\<open>getVisibleAt\<close>, \<^verbatim>\<open>setVisibleAt\<close> and \<^verbatim>\<open>getGeometryAt\<close> throw the error of
  \<^verbatim>\<open>validateGeometryId\<close> and change nothing. \<^verbatim>\<open>getBoundingBoxAt\<close> and \<^verbatim>\<open>getBoundingSphereAt\<close> do
  not validate: for a handle from \<open>geometryCount\<close> on they return \<^verbatim>\<open>null\<close>, and for the slot
  of a deleted region they return its cached bounds.
\<close>

theorem invalid_handle_accessors:
  assumes "h < 0 \<or> int (length (geometryInfo s)) \<le> h \<or> \<not> active (geometryInfo s ! nat h)"
  shows "getVisibleAt s h = Inl (InvalidGeometryId h) \<and>
         setVisibleAt s h v = (Some (InvalidGeometryId h), s) \<and>
         getGeometryAt s h = Inl (InvalidGeometryId h) \<and>
         (geometryCount s \<le> h \<longrightarrow>
            getBoundingBoxAt s h = (Inr None, s) \<and> getBoundingSphereAt s h = (Inr None, s)) \<and>
         (\<forall>r b. h < geometryCount s \<and> infoAt s h = Some r \<and> boundingBox r = Some b \<longrightarrow>
            getBoundingBoxAt s h = (Inr (Some b), s)) \<and>
         (\<forall>r sp. h < geometryCount s \<and> infoAt s h = Some r \<and> boundingSphere r = Some sp \<longrightarrow>
            getBoundingSphereAt s h = (Inr (Some sp), s))"
proof -
  from assms have "validateGeometryId s h = Some (InvalidGeometryId h)"
    by (simp add: validateGeometryId_def)
  then show ?thesis
    by (simp add: getVisibleAt_def setVisibleAt_def getGeometryAt_def getBoundingBoxAt_def
          getBoundingSphereAt_def)
qed

theorem invalid_handle_accessors_witness:
  "\<not> active (geometryInfo fragmented ! nat 0) \<and>
   getVisibleAt fragmented 0 = Inl (InvalidGeometryId 0) \<and>
   setVisibleAt fragmented 0 True = (Some (InvalidGeometryId 0), fragmented) \<and>
   getGeometryAt fragmented 0 = Inl (InvalidGeometryId 0) \<and>
   getBoundingBoxAt fragmented 0 = (Inr (Some (Box (0, 0, 0) (1, 1, 0))), fragmented) \<and>
   getBoundingSphereAt fragmented 0 =
     (Inr (Some (Sphere (1 / 2, 1 / 2, 0) (1 / 2))), fragmented) \<and>
   int (length (geometryInfo fragmented)) \<le> 7 \<and>
   getVisibleAt fragmented 7 = Inl (InvalidGeometryId 7) \<and>
   getBoundingBoxAt fragmented 7 = (Inr None, fragmented) \<and>
   getBoundingSphereAt fragmented 7 = (Inr None, fragmented)"
proof -
  have d: "\<not> active (geometryInfo fragmented ! nat 0)" by code_simp
  have c: "(0::int) < geometryCount fragmented" by code_simp
  have "case infoAt fragmented 0 of None \<Rightarrow> False
        | Some r \<Rightarrow> boundingBox r = Some (Box (0, 0, 0) (1, 1, 0)) \<and>
                   boundingSphere r = Some (Sphere (1 / 2, 1 / 2, 0) (1 / 2))"
    by code_simp
  then obtain r where r: "infoAt fragmented 0 = Some r"
      "boundingBox r = Some (Box (0, 0, 0) (1, 1, 0))"
      "boundingSphere r = Some (Sphere (1 / 2, 1 / 2, 0) (1 / 2))"
    by (cases "infoAt fragmented 0") simp_all
  have l: "int (length (geometryInfo fragmented)) \<le> 7" by code_simp
  have g: "geometryCount fragmented \<le> 7" by code_simp
  note A = invalid_handle_accessors [of 0 fragmented True, OF disjI2 [OF disjI2 [OF d]]]
  note B = invalid_handle_accessors [of 7 fragmented True, OF disjI2 [OF disjI1 [OF l]]]
  from A c r have box: "getBoundingBoxAt fragmented 0 =
      (Inr (Some (Box (0, 0, 0) (1, 1, 0))), fragmented)"
    by blast
  from A c r have sph: "getBoundingSphereAt fragmented 0 =
      (Inr (Some (Sphere (1 / 2, 1 / 2, 0) (1 / 2))), fragmented)"
    by blast
  from B g have out: "getBoundingBoxAt fragmented 7 = (Inr None, fragmented)"
      "getBoundingSphereAt fragmented 7 = (Inr None, fragmented)"
    by blast+
  from A have a: "getVisibleAt fragmented 0 = Inl (InvalidGeometryId 0)"
      "setVisibleAt fragmented 0 True = (Some (InvalidGeometryId 0), fragmented)"
      "getGeometryAt fragmented 0 = Inl (InvalidGeometryId 0)"
    by blast+
  from B have b: "getVisibleAt fragmented 7 = Inl (InvalidGeometryId 7)" by blast
  from d a box sph l b out show ?thesis by (intro conjI)
qed

text \<open>
  C7 as stated fails for the two accessors of the bounds: handle 0 is deleted and handle 7
  was never given out, and neither call throws.
\<close>

theorem bounds_of_invalid_handle_not_refused:
  "validateGeometryId fragmented 0 = Some (InvalidGeometryId 0) \<and>
   getBoundingBoxAt fragmented 0 = (Inr (Some (Box (0, 0, 0) (1, 1, 0))), fragmented) \<and>
   validateGeometryId fragmented 7 = Some (InvalidGeometryId 7) \<and>
   getBoundingBoxAt fragmented 7 = (Inr None, fragmented)"
  by code_simp

subsection \<open>Queries across optimize\<close>

text \<open>
  C1. The claim fails on the batch \<open>fragmented\<close>, where the strip of handle 1 lies behind the
  freed vertices of the quad: \<^verbatim>\<open>optimize\<close> moves the strip to vertex 0 and leaves the values
  of its indices as they were, so a ray test that reports every vertex it is handed sees
  the vertices 4 to 9 of the buffer, not the strip; and on \<open>uncached\<close>, where the bounding
  box of handle 1 is computed on demand, the box is another one after \<^verbatim>\<open>optimize\<close>. Only
  \<^verbatim>\<open>getVisibleAt\<close> answers the same.
\<close>

theorem optimize_changes_queries:
  "fst (intersectWith (\<lambda>b. None) (\<lambda>b sp ps. ps) fragmented 1) =
     Inr (map (\<lambda>p. (Some p, 1, None))
            [(5, 5, 0), (6, 5, 0), (7, 5, 0), (8, 5, 0), (9, 5, 0), (10, 5, 0)]) \<and>
   fst (intersectWith (\<lambda>b. None) (\<lambda>b sp ps. ps) (optimize fragmented) 1) =
     Inr (map (\<lambda>p. (Some p, 1, None))
            [(9, 5, 0), (10, 5, 0), (7, 5, 0), (8, 5, 0), (9, 5, 0), (10, 5, 0)]) \<and>
   fst (getBoundingBoxAt uncached 1) = Inr (Some (Box (5, 5, 0) (10, 5, 0))) \<and>
   fst (getBoundingBoxAt (optimize uncached) 1) = Inr (Some (Box (7, 5, 0) (10, 5, 0))) \<and>
   getVisibleAt uncached 1 = Inr True \<and>
   getVisibleAt (optimize uncached) 1 = Inr True"
  by code_simp

subsection \<open>What optimize writes\<close>

text \<open>
  C2. On \<open>fragmented\<close> the strip of handle 1 has the vertices 4 to 9 and the index values 4
  to 9. \<^verbatim>\<open>optimize\<close> moves its vertices to 0 to 5 and its indices to the front, sets the
  cursors and the draw range to the packed size and zeroes the indices behind it; the
  index values are still 4 to 9, since \<^verbatim>\<open>delta\<close> is computed from the \<^verbatim>\<open>vertexStart\<close> that has
  just been assigned, and the vertices behind the packed ones are not zeroed.
\<close>

theorem optimize_leaves_index_values:
  "vertexRange fragmented 1 = Some (4, 10) \<and>
   index (geometry fragmented) =
     Some (U16, [0, 1, 1, 2, 2, 3, 4, 5, 6, 7, 8, 9] @ replicate 12 0) \<and>
   vertexRange (optimize fragmented) 1 = Some (0, 6) \<and>
   index (geometry (optimize fragmented)) = Some (U16, [4, 5, 6, 7, 8, 9] @ replicate 18 0) \<and>
   map (\<lambda>na. array (snd na)) (attributes (geometry (optimize fragmented))) =
     [[5, 5, 0, 6, 5, 0, 7, 5, 0, 8, 5, 0, 9, 5, 0, 10, 5, 0] @
      [7, 5, 0, 8, 5, 0, 9, 5, 0, 10, 5, 0] @ replicate 6 0] \<and>
   drawRange (geometry (optimize fragmented)) = (0, Some 6) \<and>
   nextVertexStart (optimize fragmented) = 6 \<and> nextIndexStart (optimize fragmented) = 6"
  by code_simp

subsection \<open>Reserved ranges\<close>

text \<open>
  C3. On \<open>padded\<close> handle 0 has eight vertices reserved for its four, and handle 1 the four
  behind them. \<^verbatim>\<open>optimize\<close> packs by the vertices in use and keeps the reservations: handle
  1 then starts at vertex 4, inside the reservation of handle 0. A \<^verbatim>\<open>setGeometryAt\<close> of
  handle 0 succeeds and zeroes the rest of its reservation, which holds the vertices of
  handle 1.
\<close>

theorem optimize_overlaps_reservations:
  "map (\<lambda>r. (active r, reservedVertexRange r)) (geometryInfo padded) =
     [(True, 0, 8), (True, 8, 12)] \<and>
   map (\<lambda>r. (active r, reservedVertexRange r)) (geometryInfo (optimize padded)) =
     [(True, 0, 8), (True, 4, 8)] \<and>
   overlap (reservedVertexRange (geometryInfo (optimize padded) ! 0))
     (reservedVertexRange (geometryInfo (optimize padded) ! 1)) \<and>
   regionData (geometry (optimize padded)) (geometryInfo (optimize padded) ! 1) =
     ([(''position'', [0, 0, 0, 1, 0, 0, 1, 1, 0, 0, 1, 0])], [8, 9, 9, 10, 10, 11]) \<and>
   fst (setGeometryAt (optimize padded) 0 quad) = Inr 0 \<and>
   regionData (geometry (snd (setGeometryAt (optimize padded) 0 quad)))
     (geometryInfo (snd (setGeometryAt (optimize padded) 0 quad)) ! 1) =
     ([(''position'', replicate 12 0)], [8, 9, 9, 10, 10, 11])"
  by code_simp

subsection \<open>A call that throws\<close>

text \<open>
  C5. \<^verbatim>\<open>addGeometry(strip, 2)\<close> on \<open>oneQuad\<close> reserves two vertices for the six of the strip.
  The region is entered in the table and counted before \<^verbatim>\<open>setGeometryAt\<close> throws: after the
  throw the batch has a second, active and visible region with the counts -1, for a handle
  the caller never got.
\<close>

theorem addGeometry_throws_after_allocation:
  "fst (addGeometry oneQuad strip 2 (-1)) = Inl ReservedNotLargeEnough \<and>
   geometryCount oneQuad = 1 \<and>
   geometryCount (snd (addGeometry oneQuad strip 2 (-1))) = 2 \<and>
   map (\<lambda>r. (active r, vertexStart r, vertexCount r, reservedVertexCount r))
     (geometryInfo (snd (addGeometry oneQuad strip 2 (-1)))) =
     [(True, 0, 4, 4), (True, 4, -1, 2)] \<and>
   getVisibleAt (snd (addGeometry oneQuad strip 2 (-1))) 1 = Inr True \<and>
   geometry (snd (addGeometry oneQuad strip 2 (-1))) = geometry oneQuad \<and>
   nextVertexStart (snd (addGeometry oneQuad strip 2 (-1))) = 4 \<and>
   nextVertexStart (optimize (snd (addGeometry oneQuad strip 2 (-1)))) = 3"
  by code_simp

end
